theory Spec2Isabelle
  imports Complex_Main "HOL-Library.AList"
begin

section \<open>Values thrown and logged\<close>

text \<open>
  A rejection of a backend promise carries the \<open>code\<close> that the coordinator inspects
  (\<open>(error as AWSError).code\<close>). Everything an API call can throw is one of the three
  error classes of \<open>model/errors\<close> or such a backend error, passed on verbatim.
\<close>

datatype AWSError = AWSError (code: string)

datatype thrown =
    LockOptionsValidationError string
  | LockNotGrantedError string
  | LockTableConfigValidationError string
  | Backend AWSError

datatype LogSeverity = Error | Warn | Info

text \<open>
  JavaScript numbers hold millisecond counts here and are modelled by \<open>int\<close>; the one
  division of the program (\<open>leaseDurationInMs / 2\<close>) is carried out exactly, in \<open>rat\<close>.
  \<open>show_int\<close> is the decimal rendering a template literal gives an integer.
\<close>

fun show_nat :: "nat \<Rightarrow> string" where
  "show_nat n =
     (if n < 10 then [''0123456789'' ! n]
      else show_nat (n div 10) @ [''0123456789'' ! (n mod 10)])"

declare show_nat.simps [simp del]

definition show_int :: "int \<Rightarrow> string" where
  "show_int i = (if i < 0 then ''-'' @ show_nat (nat (- i)) else show_nat (nat i))"

section \<open>model/lock: the lock entity and its options\<close>

type_synonym AttributeMap = "(string \<times> string) list"

record LockOptions =
  opt_leaseDurationInMs :: "int option"
  opt_prolongLeaseEnabled :: "bool option"
  opt_prolongEveryMs :: "int option"
  opt_trustLocalTime :: "bool option"
  opt_waitDurationInMs :: "int option"
  opt_maxRetryCount :: "int option"
  opt_additionalAttributes :: "AttributeMap option"

text \<open>The call \<open>lock(group, id)\<close> without options passes \<open>{}\<close>.\<close>

definition no_options :: LockOptions where
  "no_options =
     \<lparr> opt_leaseDurationInMs = None, opt_prolongLeaseEnabled = None,
       opt_prolongEveryMs = None, opt_trustLocalTime = None, opt_waitDurationInMs = None,
       opt_maxRetryCount = None, opt_additionalAttributes = None \<rparr>"

text \<open>
  \<open>timeoutHandler\<close> is the private field holding the \<open>NodeJS.Timeout\<close> of the pending
  prolongation; timeouts are objects, named here by the number under which the
  runtime keeps them.
\<close>

record Lock =
  lockId :: string
  lockGroup :: string
  ownerName :: string
  recordVersionNumber :: "string option"
  lastUpdatedTimeInMs :: "int option"
  isAcquired :: bool
  leaseDurationInMs :: int
  additionalAttributes :: AttributeMap
  prolongLeaseEnabled :: bool
  prolongEveryMs :: int
  maxRetryCount :: "int option"
  trustLocalTime :: bool
  waitDurationInMs :: "int option"
  timeoutHandler :: "nat option"

text \<open>The private constructor: a parameter that is \<open>undefined\<close> takes its default.\<close>

definition Lock_new ::
  "string \<Rightarrow> string \<Rightarrow> string \<Rightarrow> string option \<Rightarrow> int option \<Rightarrow> bool \<Rightarrow> int option \<Rightarrow>
   AttributeMap option \<Rightarrow> bool option \<Rightarrow> int option \<Rightarrow> int option \<Rightarrow> bool option \<Rightarrow>
   int option \<Rightarrow> Lock" where
  "Lock_new lid grp own rvn lut acq lease addl ple pem mrc tlt wdur =
     \<lparr> lockId = lid, lockGroup = grp, ownerName = own,
       recordVersionNumber = rvn, lastUpdatedTimeInMs = lut, isAcquired = acq,
       leaseDurationInMs = (case lease of None \<Rightarrow> 20000 | Some d \<Rightarrow> d),
       additionalAttributes = (case addl of None \<Rightarrow> [] | Some a \<Rightarrow> a),
       prolongLeaseEnabled = (case ple of None \<Rightarrow> True | Some b \<Rightarrow> b),
       prolongEveryMs = (case pem of None \<Rightarrow> 5000 | Some p \<Rightarrow> p),
       maxRetryCount = mrc,
       trustLocalTime = (case tlt of None \<Rightarrow> False | Some b \<Rightarrow> b),
       waitDurationInMs = wdur,
       timeoutHandler = None \<rparr>"

definition validate :: "Lock \<Rightarrow> thrown + unit" where
  "validate lockItem =
     (if \<not> isAcquired lockItem \<and> prolongLeaseEnabled lockItem \<and>
         rat_of_int (prolongEveryMs lockItem) \<ge> rat_of_int (leaseDurationInMs lockItem) / 2
      then Inl (LockOptionsValidationError
             (''prolongEveryMs('' @ show_int (prolongEveryMs lockItem) @
              '') can not be longer than leaseDurationInMs/2('' @
              show_int (leaseDurationInMs lockItem) @ '')''))
      else Inr ())"

definition create ::
  "string \<Rightarrow> string \<Rightarrow> string \<Rightarrow> string option \<Rightarrow> int option \<Rightarrow> bool \<Rightarrow> LockOptions \<Rightarrow>
   thrown + Lock" where
  "create grp lid own rvn lut acq lockOptions =
     (let lck = Lock_new lid grp own rvn lut acq
                  (opt_leaseDurationInMs lockOptions)
                  (opt_additionalAttributes lockOptions)
                  (opt_prolongLeaseEnabled lockOptions)
                  (opt_prolongEveryMs lockOptions)
                  (opt_maxRetryCount lockOptions)
                  (opt_trustLocalTime lockOptions)
                  (opt_waitDurationInMs lockOptions)
      in case validate lck of Inl e \<Rightarrow> Inl e | Inr _ \<Rightarrow> Inr lck)"

definition getUniqueLockIdentifier :: "Lock \<Rightarrow> string" where
  "getUniqueLockIdentifier l = lockGroup l @ ''|'' @ lockId l"

text \<open>
  \<open>leaseExpirationTimePassed\<close> reads the clock (\<open>Date.now()\<close>), passed in as \<open>now\<close>.
  Its guard is \<open>!this.lastUpdatedTimeInMs\<close>, which holds for \<open>undefined\<close> and for \<open>0\<close>.
\<close>

definition leaseExpirationTimePassed :: "int \<Rightarrow> Lock \<Rightarrow> bool" where
  "leaseExpirationTimePassed now l =
     (case lastUpdatedTimeInMs l of
        None \<Rightarrow> False
      | Some t \<Rightarrow>
          if t = 0 then False
          else (let leaseExpirationTime = t + leaseDurationInMs l in now > leaseExpirationTime))"

definition acquired :: "Lock \<Rightarrow> Lock" where
  "acquired l = l\<lparr>isAcquired := True\<rparr>"

definition attemptLocking :: "string \<Rightarrow> int \<Rightarrow> Lock \<Rightarrow> Lock" where
  "attemptLocking rvn when l = l\<lparr>recordVersionNumber := Some rvn, lastUpdatedTimeInMs := Some when\<rparr>"

definition resetLockingAttempt :: "Lock \<Rightarrow> Lock" where
  "resetLockingAttempt l = l\<lparr>lastUpdatedTimeInMs := None, recordVersionNumber := None\<rparr>"

definition attemptProlonging :: "nat \<Rightarrow> Lock \<Rightarrow> Lock" where
  "attemptProlonging th l = l\<lparr>timeoutHandler := Some th\<rparr>"

definition prolonged :: "string \<Rightarrow> int \<Rightarrow> Lock \<Rightarrow> Lock" where
  "prolonged newRecordVersionNumber when l =
     l\<lparr>recordVersionNumber := Some newRecordVersionNumber, lastUpdatedTimeInMs := Some when\<rparr>"

section \<open>model/lock-table-config\<close>

record LockTableConfig =
  tableName :: string
  partitionKey :: string
  sortKey :: string
  ttlKey :: "string option"
  ttlInMs :: int

record LockTableConfigParam =
  param_tableName :: "string option"
  param_partitionKey :: "string option"
  param_sortKey :: "string option"
  param_ttlKey :: "string option"
  param_ttlInMs :: "int option"

definition HOUR :: int where
  "HOUR = 60 * 60 * 1000"

definition ATTRS_recordVersionNumber :: string where
  "ATTRS_recordVersionNumber = ''recordVersionNumber''"

definition ATTRS_ownerName :: string where
  "ATTRS_ownerName = ''ownerName''"

definition ATTRS_lastUpdatedTimeInMs :: string where
  "ATTRS_lastUpdatedTimeInMs = ''lastUpdatedTimeInMs''"

definition ATTRS_leaseDurationInMs :: string where
  "ATTRS_leaseDurationInMs = ''leaseDurationInMs''"

definition ATTRS_additionalAttributes :: string where
  "ATTRS_additionalAttributes = ''additionalAttributes''"

definition RESERVED_ATTRS :: "string list" where
  "RESERVED_ATTRS =
     [ATTRS_recordVersionNumber, ATTRS_ownerName, ATTRS_lastUpdatedTimeInMs,
      ATTRS_leaseDurationInMs, ATTRS_additionalAttributes]"

text \<open>
  A test \<open>if (config.ttlKey)\<close> passes when the key is set and not the empty string;
  \<open>truthy\<close> then gives the key.
\<close>

definition truthy :: "string option \<Rightarrow> string option" where
  "truthy k = (case k of None \<Rightarrow> None | Some x \<Rightarrow> if x = [] then None else Some x)"

definition LockTableConfig_new ::
  "string option \<Rightarrow> string option \<Rightarrow> string option \<Rightarrow> string option \<Rightarrow> int option \<Rightarrow>
   LockTableConfig" where
  "LockTableConfig_new tn pk sk tk ttl =
     \<lparr> tableName = (case tn of None \<Rightarrow> ''LockTable'' | Some x \<Rightarrow> x),
       partitionKey = (case pk of None \<Rightarrow> ''lockId'' | Some x \<Rightarrow> x),
       sortKey = (case sk of None \<Rightarrow> ''lockGroup'' | Some x \<Rightarrow> x),
       ttlKey = tk,
       ttlInMs = (case ttl of None \<Rightarrow> HOUR | Some x \<Rightarrow> x) \<rparr>"

definition LockTableConfig_create :: "LockTableConfigParam \<Rightarrow> thrown + LockTableConfig" where
  "LockTableConfig_create configParam =
     (let config = LockTableConfig_new (param_tableName configParam)
                     (param_partitionKey configParam) (param_sortKey configParam)
                     (param_ttlKey configParam) (param_ttlInMs configParam)
      in if partitionKey config \<in> set RESERVED_ATTRS
         then Inl (LockTableConfigValidationError
                (''\"'' @ partitionKey config @
                 ''\" is a reserved word and cannot use as a partitionKey''))
         else if sortKey config \<in> set RESERVED_ATTRS
         then Inl (LockTableConfigValidationError
                (''\"'' @ partitionKey config @
                 ''\" is a reserved word and cannot use as a sortKey''))
         else if (case truthy (ttlKey config) of None \<Rightarrow> False
                  | Some k \<Rightarrow> k \<in> set RESERVED_ATTRS)
         then Inl (LockTableConfigValidationError
                (''\"'' @ partitionKey config @
                 ''\" is a reserved word and cannot use as a ttlKey''))
         else Inr config)"

section \<open>data-layer: the store adapter\<close>

text \<open>
  The adapter shapes one request object per operation and hands it to the document
  client. A request object is a record whose absent properties are \<open>None\<close>; an object
  with computed keys is an association list built key by key, a later equal key
  replacing the earlier value in place, as in JavaScript.
\<close>

datatype attr_value = S string | N int | M AttributeMap | Undefined

definition opt_S :: "string option \<Rightarrow> attr_value" where
  "opt_S x = (case x of None \<Rightarrow> Undefined | Some v \<Rightarrow> S v)"

definition opt_N :: "int option \<Rightarrow> attr_value" where
  "opt_N x = (case x of None \<Rightarrow> Undefined | Some v \<Rightarrow> N v)"

definition obj :: "('k \<times> 'v) list \<Rightarrow> ('k \<times> 'v) list" where
  "obj kvs = foldl (\<lambda>m (k, v). AList.update k v m) [] kvs"

record DocumentClientParams =
  TableName :: string
  Key :: "(string \<times> attr_value) list option"
  Item :: "(string \<times> attr_value) list option"
  ConsistentRead :: "bool option"
  ConditionExpression :: "string option"
  ExpressionAttributeNames :: "(string \<times> string) list option"
  ExpressionAttributeValues :: "(string \<times> attr_value) list option"
  UpdateExpression :: "string option"

record LockTableAttrs =
  attrs_recordVersionNumber :: "string option"
  attrs_ownerName :: string
  attrs_lastUpdatedTimeInMs :: "int option"
  attrs_leaseDurationInMs :: "int option"
  attrs_additionalAttributes :: "AttributeMap option"

definition PK_PATH_EXPRESSION_VARIABLE :: string where
  "PK_PATH_EXPRESSION_VARIABLE = ''#pk''"

definition SK_PATH_EXPRESSION_VARIABLE :: string where
  "SK_PATH_EXPRESSION_VARIABLE = ''#sk''"

definition PATH_EXPRESSION :: "string \<Rightarrow> string" where
  "PATH_EXPRESSION recordKey = ''#'' @ recordKey"

definition VALUE_EXPRESSION :: "string \<Rightarrow> string" where
  "VALUE_EXPRESSION recordKey = '':'' @ recordKey"

definition UPDATE_VALUE_EXPRESSION :: "string \<Rightarrow> string" where
  "UPDATE_VALUE_EXPRESSION recordKey = '':new'' @ recordKey"

fun join :: "string \<Rightarrow> string list \<Rightarrow> string" where
  "join sep [] = []"
| "join sep [x] = x"
| "join sep (x # y # ys) = x @ sep @ join sep (y # ys)"

definition UPDATE_EXPRESSION :: "string list \<Rightarrow> string" where
  "UPDATE_EXPRESSION recordKeys =
     ''SET '' @ join '', ''
        (map (\<lambda>recordKey. PATH_EXPRESSION recordKey @ '' = '' @ UPDATE_VALUE_EXPRESSION recordKey)
           recordKeys)"

definition ACQUIRE_LOCK_THAT_DOESNT_EXIST_CONDITION :: string where
  "ACQUIRE_LOCK_THAT_DOESNT_EXIST_CONDITION =
     ''attribute_not_exists('' @ PK_PATH_EXPRESSION_VARIABLE @
     '') AND attribute_not_exists('' @ SK_PATH_EXPRESSION_VARIABLE @ '')''"

definition LOCK_EXIST_CONDITION :: string where
  "LOCK_EXIST_CONDITION =
     ''attribute_exists('' @ PK_PATH_EXPRESSION_VARIABLE @
     '') AND attribute_exists('' @ SK_PATH_EXPRESSION_VARIABLE @ '')''"

definition LOCK_EXIST_AND_RVN_SAME_CONDITION :: string where
  "LOCK_EXIST_AND_RVN_SAME_CONDITION =
     LOCK_EXIST_CONDITION @ '' AND '' @ PATH_EXPRESSION ATTRS_recordVersionNumber @ '' = '' @
     VALUE_EXPRESSION ATTRS_recordVersionNumber"

definition LOCK_EXIST_AND_RVN_AND_OWNER_NAME_SAME_CONDITION :: string where
  "LOCK_EXIST_AND_RVN_AND_OWNER_NAME_SAME_CONDITION =
     LOCK_EXIST_AND_RVN_SAME_CONDITION @ '' AND '' @ PATH_EXPRESSION ATTRS_ownerName @ '' = '' @
     VALUE_EXPRESSION ATTRS_ownerName"

text \<open>
  \<open>Math.round\<close> rounds to the nearest integer, a tie upwards.
  \<open>calculateTTL\<close> reads the clock, passed in as \<open>now\<close>. The arithmetic is exact,
  as the source's is for numbers below \<open>2^53\<close>.
\<close>

definition Math_round :: "rat \<Rightarrow> int" where
  "Math_round x = \<lfloor>x + 1 / 2\<rfloor>"

definition calculateTTL :: "LockTableConfig \<Rightarrow> int \<Rightarrow> int" where
  "calculateTTL config now = Math_round (rat_of_int (now + ttlInMs config) / 1000)"

definition updateTTLIfEnabled ::
  "LockTableConfig \<Rightarrow> int \<Rightarrow> DocumentClientParams \<Rightarrow> DocumentClientParams" where
  "updateTTLIfEnabled config now params =
     (case truthy (ttlKey config) of
        None \<Rightarrow> params
      | Some k \<Rightarrow>
        (let ttlPath = PATH_EXPRESSION k;
             ttlUpdateExpression = UPDATE_VALUE_EXPRESSION k
         in params
            \<lparr> ExpressionAttributeNames :=
                 Some (AList.update ttlPath k
                         (case ExpressionAttributeNames params of None \<Rightarrow> [] | Some ns \<Rightarrow> ns)),
               ExpressionAttributeValues :=
                 Some (AList.update ttlUpdateExpression (N (calculateTTL config now))
                         (case ExpressionAttributeValues params of None \<Rightarrow> [] | Some vs \<Rightarrow> vs)),
               UpdateExpression :=
                 Some ((case UpdateExpression params of None \<Rightarrow> ''undefined'' | Some u \<Rightarrow> u) @
                       '', '' @ ttlPath @ '' = '' @ ttlUpdateExpression) \<rparr>))"

definition getLockByGroupAndId_params ::
  "LockTableConfig \<Rightarrow> string \<Rightarrow> string \<Rightarrow> DocumentClientParams" where
  "getLockByGroupAndId_params config grp lid =
     \<lparr> TableName = tableName config,
       Key = Some (obj [(partitionKey config, S lid), (sortKey config, S grp)]),
       Item = None,
       ConsistentRead = Some True,
       ConditionExpression = None,
       ExpressionAttributeNames = None,
       ExpressionAttributeValues = None,
       UpdateExpression = None \<rparr>"

definition createNewLock_params :: "LockTableConfig \<Rightarrow> int \<Rightarrow> Lock \<Rightarrow> DocumentClientParams" where
  "createNewLock_params config now lockItem =
     (let attrValues =
            [(ATTRS_recordVersionNumber, opt_S (recordVersionNumber lockItem)),
             (ATTRS_ownerName, S (ownerName lockItem)),
             (ATTRS_lastUpdatedTimeInMs, opt_N (lastUpdatedTimeInMs lockItem)),
             (ATTRS_leaseDurationInMs, N (leaseDurationInMs lockItem)),
             (ATTRS_additionalAttributes, M (additionalAttributes lockItem))];
          item = obj (attrValues @
                   [(partitionKey config, S (lockId lockItem)),
                    (sortKey config, S (lockGroup lockItem))])
      in \<lparr> TableName = tableName config,
           Key = None,
           Item = Some (case truthy (ttlKey config) of
                          None \<Rightarrow> item
                        | Some k \<Rightarrow> AList.update k (N (calculateTTL config now)) item),
           ConsistentRead = None,
           ConditionExpression = Some ACQUIRE_LOCK_THAT_DOESNT_EXIST_CONDITION,
           ExpressionAttributeNames =
             Some (obj [(PK_PATH_EXPRESSION_VARIABLE, partitionKey config),
                        (SK_PATH_EXPRESSION_VARIABLE, sortKey config)]),
           ExpressionAttributeValues = None,
           UpdateExpression = None \<rparr>)"

definition updateRecordVersionNumberAndTime_params ::
  "LockTableConfig \<Rightarrow> int \<Rightarrow> Lock \<Rightarrow> string \<Rightarrow> int \<Rightarrow> DocumentClientParams" where
  "updateRecordVersionNumberAndTime_params config now existingLock newRecordVersionNumber when =
     updateTTLIfEnabled config now
       \<lparr> TableName = tableName config,
         Key = Some (obj [(partitionKey config, S (lockId existingLock)),
                          (sortKey config, S (lockGroup existingLock))]),
         Item = None,
         ConsistentRead = None,
         ConditionExpression = Some LOCK_EXIST_AND_RVN_AND_OWNER_NAME_SAME_CONDITION,
         ExpressionAttributeNames =
           Some (obj [(PK_PATH_EXPRESSION_VARIABLE, partitionKey config),
                      (SK_PATH_EXPRESSION_VARIABLE, sortKey config),
                      (PATH_EXPRESSION ATTRS_recordVersionNumber, ATTRS_recordVersionNumber),
                      (PATH_EXPRESSION ATTRS_ownerName, ATTRS_ownerName),
                      (PATH_EXPRESSION ATTRS_lastUpdatedTimeInMs, ATTRS_lastUpdatedTimeInMs)]),
         ExpressionAttributeValues =
           Some (obj [(VALUE_EXPRESSION ATTRS_recordVersionNumber,
                         opt_S (recordVersionNumber existingLock)),
                      (VALUE_EXPRESSION ATTRS_ownerName, S (ownerName existingLock)),
                      (UPDATE_VALUE_EXPRESSION ATTRS_recordVersionNumber, S newRecordVersionNumber),
                      (UPDATE_VALUE_EXPRESSION ATTRS_lastUpdatedTimeInMs, N when)]),
         UpdateExpression =
           Some (UPDATE_EXPRESSION [ATTRS_recordVersionNumber, ATTRS_lastUpdatedTimeInMs]) \<rparr>"

definition updateLockWithNewLockContent_params ::
  "LockTableConfig \<Rightarrow> int \<Rightarrow> Lock \<Rightarrow> Lock \<Rightarrow> DocumentClientParams" where
  "updateLockWithNewLockContent_params config now existingLock newLock =
     updateTTLIfEnabled config now
       \<lparr> TableName = tableName config,
         Key = Some (obj [(partitionKey config, S (lockId existingLock)),
                          (sortKey config, S (lockGroup existingLock))]),
         Item = None,
         ConsistentRead = None,
         ConditionExpression = Some LOCK_EXIST_AND_RVN_SAME_CONDITION,
         ExpressionAttributeNames =
           Some (obj [(PK_PATH_EXPRESSION_VARIABLE, partitionKey config),
                      (SK_PATH_EXPRESSION_VARIABLE, sortKey config),
                      (PATH_EXPRESSION ATTRS_recordVersionNumber, ATTRS_recordVersionNumber),
                      (PATH_EXPRESSION ATTRS_ownerName, ATTRS_ownerName),
                      (PATH_EXPRESSION ATTRS_lastUpdatedTimeInMs, ATTRS_lastUpdatedTimeInMs),
                      (PATH_EXPRESSION ATTRS_leaseDurationInMs, ATTRS_leaseDurationInMs),
                      (PATH_EXPRESSION ATTRS_additionalAttributes, ATTRS_additionalAttributes)]),
         ExpressionAttributeValues =
           Some (obj [(VALUE_EXPRESSION ATTRS_recordVersionNumber,
                         opt_S (recordVersionNumber existingLock)),
                      (UPDATE_VALUE_EXPRESSION ATTRS_recordVersionNumber,
                         opt_S (recordVersionNumber newLock)),
                      (UPDATE_VALUE_EXPRESSION ATTRS_ownerName, S (ownerName newLock)),
                      (UPDATE_VALUE_EXPRESSION ATTRS_lastUpdatedTimeInMs,
                         opt_N (lastUpdatedTimeInMs newLock)),
                      (UPDATE_VALUE_EXPRESSION ATTRS_leaseDurationInMs,
                         N (leaseDurationInMs newLock)),
                      (UPDATE_VALUE_EXPRESSION ATTRS_additionalAttributes,
                         M (additionalAttributes newLock))]),
         UpdateExpression =
           Some (UPDATE_EXPRESSION
                   [ATTRS_recordVersionNumber, ATTRS_ownerName, ATTRS_lastUpdatedTimeInMs,
                    ATTRS_leaseDurationInMs, ATTRS_additionalAttributes]) \<rparr>"

definition deleteLock_params :: "LockTableConfig \<Rightarrow> Lock \<Rightarrow> DocumentClientParams" where
  "deleteLock_params config lockItem =
     \<lparr> TableName = tableName config,
       Key = Some (obj [(partitionKey config, S (lockId lockItem)),
                        (sortKey config, S (lockGroup lockItem))]),
       Item = None,
       ConsistentRead = None,
       ConditionExpression = Some LOCK_EXIST_AND_RVN_AND_OWNER_NAME_SAME_CONDITION,
       ExpressionAttributeNames =
         Some (obj [(PK_PATH_EXPRESSION_VARIABLE, partitionKey config),
                    (SK_PATH_EXPRESSION_VARIABLE, sortKey config),
                    (PATH_EXPRESSION ATTRS_recordVersionNumber, ATTRS_recordVersionNumber),
                    (PATH_EXPRESSION ATTRS_ownerName, ATTRS_ownerName)]),
       ExpressionAttributeValues =
         Some (obj [(VALUE_EXPRESSION ATTRS_recordVersionNumber,
                       opt_S (recordVersionNumber lockItem)),
                    (VALUE_EXPRESSION ATTRS_ownerName, S (ownerName lockItem))]),
       UpdateExpression = None \<rparr>"

section \<open>lock-client: the coordinator\<close>

text \<open>
  The coordinator is asynchronous: a call runs until its next \<open>await\<close> and is resumed
  when the awaited promise settles; in between, other calls and timer callbacks run.
  The model is the event loop made explicit. A state holds the coordinator's fields
  (\<open>acquiredLocks\<close>, \<open>ownerName\<close>, the adapter's table descriptor, whether a log
  callback was supplied), the store of \<open>Lock\<close> objects (handles are references: the
  registry, the caller and the timer closures share one object), the armed timers,
  and for every suspended call the place where it waits. Each source function is cut
  at its \<open>await\<close>s: the part before one issues the request and suspends, the part
  after it takes the reply. \<open>trace\<close> lists, in order, the adapter operations and waits
  issued; \<open>logs\<close> the calls made to the log callback; \<open>outcomes\<close> how each finished
  call ended.
\<close>

type_synonym ref = nat
type_synonym timeout = nat
type_synonym task = nat

datatype io =
    GetLockByGroupAndId DocumentClientParams
  | CreateNewLock ref DocumentClientParams
  | UpdateRecordVersionNumberAndTime ref DocumentClientParams
  | UpdateLockWithNewLockContent ref DocumentClientParams
  | DeleteLock ref DocumentClientParams
  | WaitMs int

text \<open>
  Where a call is suspended, with the local variables it needs afterwards:
  the lock, the retry count, the wait taken, the lock read from the table,
  and for a renewal its new version, its time, the registry key and the period.
\<close>

datatype pending =
    AwaitGet ref int
  | AwaitCreate ref int
  | AwaitWaitThenRetry ref int int
  | AwaitWaitThenSteal ref Lock int
  | AwaitSteal ref int
  | AwaitDelete ref
  | AwaitProlong ref string int string int

datatype outcome = Returned "ref option" | Threw thrown

datatype reply = Resolve "LockTableAttrs option" | Reject AWSError

record state =
  config :: LockTableConfig
  logCallback :: bool
  clientOwnerName :: string
  acquiredLocks :: "(string \<times> ref) list"
  heap :: "ref \<Rightarrow> Lock"
  timers :: "timeout \<rightharpoonup> string \<times> ref option \<times> int"
  tasks :: "task \<rightharpoonup> pending"
  outcomes :: "task \<rightharpoonup> outcome"
  trace :: "(task \<times> io) list"
  logs :: "(LogSeverity \<times> string) list"
  nextRef :: nat
  nextTimeout :: nat
  nextTask :: nat
  clock :: int
  uuids :: "nat \<Rightarrow> string"
  nextUuid :: nat

definition CONDITIONAL_CHECK_FAILED :: string where
  "CONDITIONAL_CHECK_FAILED = ''ConditionalCheckFailedException''"

definition log :: "LogSeverity \<Rightarrow> string \<Rightarrow> state \<Rightarrow> state" where
  "log severity message s =
     (if logCallback s then s\<lparr>logs := logs s @ [(severity, message)]\<rparr> else s)"

definition generateUUID :: "state \<Rightarrow> string \<times> state" where
  "generateUUID s = (uuids s (nextUuid s), s\<lparr>nextUuid := Suc (nextUuid s)\<rparr>)"

definition modify :: "ref \<Rightarrow> (Lock \<Rightarrow> Lock) \<Rightarrow> state \<Rightarrow> state" where
  "modify r f s = s\<lparr>heap := (heap s)(r := f (heap s r))\<rparr>"

definition suspend :: "task \<Rightarrow> io \<Rightarrow> pending \<Rightarrow> state \<Rightarrow> state" where
  "suspend t req k s = s\<lparr>trace := trace s @ [(t, req)], tasks := (tasks s)(t \<mapsto> k)\<rparr>"

definition finish :: "task \<Rightarrow> outcome \<Rightarrow> state \<Rightarrow> state" where
  "finish t res s = s\<lparr>tasks := (tasks s)(t := None), outcomes := (outcomes s)(t \<mapsto> res)\<rparr>"

definition clearTimeout :: "timeout \<Rightarrow> state \<Rightarrow> state" where
  "clearTimeout th s = s\<lparr>timers := (timers s)(th := None)\<rparr>"

text \<open>\<open>Lock.released\<close>, with its effect on the runtime's timers.\<close>

definition released :: "ref \<Rightarrow> state \<Rightarrow> state" where
  "released r s =
     (let s1 = modify r (\<lambda>l. l\<lparr>isAcquired := False\<rparr>) s
      in case timeoutHandler (heap s1 r) of
           None \<Rightarrow> s1
         | Some th \<Rightarrow> modify r (\<lambda>l. l\<lparr>timeoutHandler := None\<rparr>) (clearTimeout th s1))"

definition startProlongingLease :: "string \<Rightarrow> int \<Rightarrow> state \<Rightarrow> state" where
  "startProlongingLease lockIdentifier every s =
     (let lck = map_of (acquiredLocks s) lockIdentifier;
          handler = nextTimeout s;
          s1 = s\<lparr>nextTimeout := Suc handler,
                 timers := (timers s)(handler \<mapsto> (lockIdentifier, lck, every))\<rparr>
      in case lck of
           None \<Rightarrow> s1
         | Some r \<Rightarrow> modify r (attemptProlonging handler) s1)"

definition lockAcquired :: "ref \<Rightarrow> state \<Rightarrow> state" where
  "lockAcquired r s =
     (let uid = getUniqueLockIdentifier (heap s r);
          s1 = log Info (''Lock: '' @ uid @ '' is acquired'') s;
          s2 = modify r acquired s1;
          s3 = s2\<lparr>acquiredLocks := AList.update uid r (acquiredLocks s2)\<rparr>
      in if prolongLeaseEnabled (heap s3 r)
         then startProlongingLease uid (prolongEveryMs (heap s3 r))
                (log Info (''Starting prolongLease for the lock '' @ uid) s3)
         else s3)"

definition acquireLock :: "task \<Rightarrow> ref \<Rightarrow> int \<Rightarrow> state \<Rightarrow> state" where
  "acquireLock t r retryCount s =
     (let lck = heap s r in
      if isAcquired lck
      then finish t (Threw (LockNotGrantedError
             (''Lock is already acquired: '' @ getUniqueLockIdentifier lck))) s
      else if (case maxRetryCount lck of None \<Rightarrow> False | Some m \<Rightarrow> retryCount > m)
      then finish t (Threw (LockNotGrantedError
             (getUniqueLockIdentifier lck @ '' could not be acquired after retrying for '' @
              (case maxRetryCount lck of None \<Rightarrow> ''undefined'' | Some m \<Rightarrow> show_int m) @
              '' times.''))) s
      else suspend t
             (GetLockByGroupAndId (getLockByGroupAndId_params (config s) (lockGroup lck) (lockId lck)))
             (AwaitGet r (retryCount + 1)) s)"

definition acquireNewLock :: "task \<Rightarrow> ref \<Rightarrow> int \<Rightarrow> state \<Rightarrow> state" where
  "acquireNewLock t r retryCount s =
     (let (uuid, s1) = generateUUID s;
          s2 = modify r (attemptLocking uuid (clock s1)) s1
      in suspend t (CreateNewLock r (createNewLock_params (config s2) (clock s2) (heap s2 r)))
           (AwaitCreate r (retryCount + 1)) s2)"

definition stealExistingLock :: "task \<Rightarrow> ref \<Rightarrow> Lock \<Rightarrow> int \<Rightarrow> state \<Rightarrow> state" where
  "stealExistingLock t r existingLock retryCount s =
     (let (uuid, s1) = generateUUID s;
          s2 = modify r (attemptLocking uuid (clock s1)) s1
      in suspend t
           (UpdateLockWithNewLockContent r
              (updateLockWithNewLockContent_params (config s2) (clock s2) existingLock (heap s2 r)))
           (AwaitSteal r retryCount) s2)"

definition tryStealingExistingLock :: "task \<Rightarrow> ref \<Rightarrow> Lock \<Rightarrow> int \<Rightarrow> state \<Rightarrow> state" where
  "tryStealingExistingLock t r existingLock retryCount s =
     (let newLock = heap s r in
      if trustLocalTime newLock
      then (let waitDuration = (case waitDurationInMs newLock of None \<Rightarrow> 0 | Some w \<Rightarrow> w)
            in suspend t (WaitMs waitDuration) (AwaitWaitThenRetry r waitDuration retryCount) s)
      else suspend t (WaitMs (leaseDurationInMs existingLock))
             (AwaitWaitThenSteal r existingLock retryCount)
             (log Info (''Waiting for a lease duration make sure existing lock does not renewed: '' @
                        getUniqueLockIdentifier newLock) s))"

text \<open>\<open>acquireLock\<close> after its read of the table.\<close>

definition acquireLock_read :: "task \<Rightarrow> ref \<Rightarrow> int \<Rightarrow> reply \<Rightarrow> state \<Rightarrow> state" where
  "acquireLock_read t r retryCount rep s =
     (let lck = heap s r in
      case rep of
        Reject e \<Rightarrow> finish t (Threw (Backend e)) s
      | Resolve None \<Rightarrow>
          acquireNewLock t r retryCount
            (log Info (getUniqueLockIdentifier lck @
                       '' is not exist, trying to acquire a new lock'') s)
      | Resolve (Some existingLockAttrs) \<Rightarrow>
          (case create (lockGroup lck) (lockId lck)
                  (attrs_ownerName existingLockAttrs)
                  (attrs_recordVersionNumber existingLockAttrs)
                  (attrs_lastUpdatedTimeInMs existingLockAttrs)
                  True
                  (no_options
                     \<lparr> opt_additionalAttributes := attrs_additionalAttributes existingLockAttrs,
                       opt_leaseDurationInMs := attrs_leaseDurationInMs existingLockAttrs \<rparr>) of
             Inl e \<Rightarrow> finish t (Threw e) s
           | Inr existingLock \<Rightarrow>
               (let s1 = log Info (getUniqueLockIdentifier lck @ '' is already exist'') s
                in if trustLocalTime lck \<and> leaseExpirationTimePassed (clock s1) existingLock
                   then stealExistingLock t r existingLock retryCount
                          (log Info
                             (''trustLocalTime enabled, not waiting to acquire already expired lock: '' @
                              getUniqueLockIdentifier existingLock) s1)
                   else tryStealingExistingLock t r existingLock retryCount s1)))"

text \<open>\<open>acquireNewLock\<close> after its conditional put.\<close>

definition acquireNewLock_written :: "task \<Rightarrow> ref \<Rightarrow> int \<Rightarrow> reply \<Rightarrow> state \<Rightarrow> state" where
  "acquireNewLock_written t r retryCount rep s =
     (case rep of
        Resolve _ \<Rightarrow> finish t (Returned (Some r)) (lockAcquired r s)
      | Reject e \<Rightarrow>
          if code e = CONDITIONAL_CHECK_FAILED
          then acquireLock t r retryCount
                 (modify r resetLockingAttempt
                    (log Info (''Trying to acquire new lock but '' @
                               getUniqueLockIdentifier (heap s r) @ '' is already exist'') s))
          else finish t (Threw (Backend e)) s)"

text \<open>\<open>stealExistingLock\<close> after its conditional update.\<close>

definition stealExistingLock_written :: "task \<Rightarrow> ref \<Rightarrow> int \<Rightarrow> reply \<Rightarrow> state \<Rightarrow> state" where
  "stealExistingLock_written t r retryCount rep s =
     (case rep of
        Resolve _ \<Rightarrow>
          (let s1 = lockAcquired r s
           in finish t (Returned (Some r))
                (log Info (''Existing '' @ getUniqueLockIdentifier (heap s1 r) @
                           '' successfully replaced (stolen) with the requested lock'') s1))
      | Reject e \<Rightarrow>
          if code e = CONDITIONAL_CHECK_FAILED
          then acquireLock t r retryCount
                 (modify r resetLockingAttempt
                    (log Info (''Trying to acquire '' @ getUniqueLockIdentifier (heap s r) @
                               '' but its lease renewed'') s))
          else finish t (Threw (Backend e)) s)"

text \<open>\<open>tryStealingExistingLock\<close> after its wait, on either branch.\<close>

definition tryStealingExistingLock_retry :: "task \<Rightarrow> ref \<Rightarrow> int \<Rightarrow> int \<Rightarrow> state \<Rightarrow> state" where
  "tryStealingExistingLock_retry t r waitDuration retryCount s =
     acquireLock t r retryCount
       (log Info (''trustLocalTime enabled, waiting for '' @ show_int waitDuration @
                  ''ms to check again not expired lock: '' @
                  getUniqueLockIdentifier (heap s r)) s)"

definition tryStealingExistingLock_steal :: "task \<Rightarrow> ref \<Rightarrow> Lock \<Rightarrow> int \<Rightarrow> state \<Rightarrow> state" where
  "tryStealingExistingLock_steal t r existingLock retryCount s =
     stealExistingLock t r existingLock retryCount s"

text \<open>The public \<open>lock\<close>: the new call is the task \<open>nextTask s\<close>.\<close>

definition lock :: "string \<Rightarrow> string \<Rightarrow> LockOptions \<Rightarrow> state \<Rightarrow> state" where
  "lock grp lid lockOptions s =
     (let t = nextTask s;
          s1 = s\<lparr>nextTask := Suc t\<rparr>
      in case create grp lid (clientOwnerName s1) None None False lockOptions of
           Inl e \<Rightarrow> finish t (Threw e) s1
         | Inr lck \<Rightarrow>
             (let r = nextRef s1;
                  s2 = s1\<lparr>nextRef := Suc r, heap := (heap s1)(r := lck)\<rparr>;
                  s3 = log Info (''Trying to acquire lock for: '' @ getUniqueLockIdentifier lck) s2
              in acquireLock t r 0 s3))"

definition releaseLock :: "ref \<Rightarrow> state \<Rightarrow> state" where
  "releaseLock r s =
     (let t = nextTask s;
          s1 = s\<lparr>nextTask := Suc t\<rparr>;
          s2 = released r s1;
          s3 = s2\<lparr>acquiredLocks :=
                    AList.delete (getUniqueLockIdentifier (heap s2 r)) (acquiredLocks s2)\<rparr>
      in suspend t (DeleteLock r (deleteLock_params (config s3) (heap s3 r))) (AwaitDelete r) s3)"

text \<open>\<open>releaseLock\<close> after its conditional delete.\<close>

definition releaseLock_deleted :: "task \<Rightarrow> ref \<Rightarrow> reply \<Rightarrow> state \<Rightarrow> state" where
  "releaseLock_deleted t r rep s =
     (case rep of
        Resolve _ \<Rightarrow>
          finish t (Returned None)
            (log Info (''Lock: '' @ getUniqueLockIdentifier (heap s r) @ '' is released.'') s)
      | Reject e \<Rightarrow>
          if code e = CONDITIONAL_CHECK_FAILED
          then finish t (Returned None)
                 (log Warn (''Tried to remove the lock but it is already released: '' @
                            getUniqueLockIdentifier (heap s r)) s)
          else finish t (Threw (Backend e)) s)"

text \<open>
  \<open>releaseAllLocks\<close> pushes the locks themselves on \<open>releaseLockPromises\<close>;
  \<open>Promise.all\<close> of values that are no promises resolves with them.
\<close>

definition releaseAllLocks :: "state \<Rightarrow> state" where
  "releaseAllLocks s =
     (let t = nextTask s;
          s1 = s\<lparr>nextTask := Suc t\<rparr>;
          toBeRemovedLocks = acquiredLocks s1;
          s2 = s1\<lparr>acquiredLocks := []\<rparr>;
          s3 = foldl (\<lambda>st lck. released lck st) s2 (map snd toBeRemovedLocks)
      in finish t (Returned None) s3)"

definition prolongLease :: "task \<Rightarrow> ref \<Rightarrow> string \<Rightarrow> int \<Rightarrow> state \<Rightarrow> state" where
  "prolongLease t r lockIdentifier every s =
     (let (newRecordVersionNumber, s1) = generateUUID s;
          now = clock s1
      in suspend t
           (UpdateRecordVersionNumberAndTime r
              (updateRecordVersionNumberAndTime_params (config s1) (clock s1) (heap s1 r)
                 newRecordVersionNumber now))
           (AwaitProlong r newRecordVersionNumber now lockIdentifier every) s1)"

text \<open>
  The callback that \<open>startProlongingLease\<close> gave \<open>setTimeout\<close>, run when the timeout
  fires: it is a call of its own, whose promise nobody awaits.
\<close>

definition timeoutFired :: "timeout \<Rightarrow> state \<Rightarrow> state" where
  "timeoutFired th s =
     (case timers s th of
        None \<Rightarrow> s
      | Some (lockIdentifier, lck, every) \<Rightarrow>
          (let t = nextTask s;
               s1 = s\<lparr>nextTask := Suc t, timers := (timers s)(th := None)\<rparr>
           in case lck of
                None \<Rightarrow> finish t (Returned None) s1
              | Some r \<Rightarrow>
                  if \<not> isAcquired (heap s1 r) then finish t (Returned None) s1
                  else prolongLease t r lockIdentifier every s1))"

text \<open>The callback after \<open>prolongLease\<close>'s conditional update.\<close>

definition prolongLease_written ::
  "task \<Rightarrow> ref \<Rightarrow> string \<Rightarrow> int \<Rightarrow> string \<Rightarrow> int \<Rightarrow> reply \<Rightarrow> state \<Rightarrow> state" where
  "prolongLease_written t r newRecordVersionNumber now lockIdentifier every rep s =
     (case rep of
        Resolve _ \<Rightarrow>
          (let s1 = modify r (prolonged newRecordVersionNumber now) s;
               s2 = log Info (''Lease prolonged/renewed for: '' @
                              getUniqueLockIdentifier (heap s1 r)) s1
           in finish t (Returned None) (startProlongingLease lockIdentifier every s2))
      | Reject e \<Rightarrow> finish t (Threw (Backend e)) s)"

text \<open>
  What can happen next: a caller invokes one of the three public methods, the promise a
  suspended call awaits settles (a backend reply, or a wait that elapsed), an armed
  timeout fires, or the clock advances. An event that is not enabled (no such
  suspended call or armed timeout, a reply where a wait is pending) changes nothing.
\<close>

datatype event =
    CallLock string string LockOptions
  | CallReleaseLock ref
  | CallReleaseAllLocks
  | Replied task reply
  | Elapsed task
  | Fired timeout
  | Tick int

definition resume :: "task \<Rightarrow> reply \<Rightarrow> state \<Rightarrow> state" where
  "resume t rep s =
     (case tasks s t of
        Some (AwaitGet r retryCount) \<Rightarrow> acquireLock_read t r retryCount rep s
      | Some (AwaitCreate r retryCount) \<Rightarrow> acquireNewLock_written t r retryCount rep s
      | Some (AwaitSteal r retryCount) \<Rightarrow> stealExistingLock_written t r retryCount rep s
      | Some (AwaitDelete r) \<Rightarrow> releaseLock_deleted t r rep s
      | Some (AwaitProlong r newRecordVersionNumber now lockIdentifier every) \<Rightarrow>
          prolongLease_written t r newRecordVersionNumber now lockIdentifier every rep s
      | _ \<Rightarrow> s)"

definition wake :: "task \<Rightarrow> state \<Rightarrow> state" where
  "wake t s =
     (case tasks s t of
        Some (AwaitWaitThenRetry r waitDuration retryCount) \<Rightarrow>
          tryStealingExistingLock_retry t r waitDuration retryCount s
      | Some (AwaitWaitThenSteal r existingLock retryCount) \<Rightarrow>
          tryStealingExistingLock_steal t r existingLock retryCount s
      | _ \<Rightarrow> s)"

fun step :: "event \<Rightarrow> state \<Rightarrow> state" where
  "step (CallLock grp lid lockOptions) s = lock grp lid lockOptions s"
| "step (CallReleaseLock r) s = releaseLock r s"
| "step CallReleaseAllLocks s = releaseAllLocks s"
| "step (Replied t rep) s = resume t rep s"
| "step (Elapsed t) s = wake t s"
| "step (Fired th) s = timeoutFired th s"
| "step (Tick d) s = s\<lparr>clock := clock s + d\<rparr>"

fun steps :: "event list \<Rightarrow> state \<Rightarrow> state" where
  "steps [] s = s"
| "steps (e # es) s = steps es (step e s)"

text \<open>\<open>new LockClient(dataLayer, logCallback)\<close> in a fresh runtime.\<close>

definition LockClient_new :: "LockTableConfig \<Rightarrow> bool \<Rightarrow> (nat \<Rightarrow> string) \<Rightarrow> int \<Rightarrow> state" where
  "LockClient_new cfg cb ids now =
     \<lparr> config = cfg, logCallback = cb, clientOwnerName = ids 0, acquiredLocks = [],
       heap = (\<lambda>_. Lock_new [] [] [] None None False None None None None None None None),
       timers = Map.empty, tasks = Map.empty, outcomes = Map.empty,
       trace = [], logs = [],
       nextRef = 0, nextTimeout = 0, nextTask = 0,
       clock = now, uuids = ids, nextUuid = 1 \<rparr>"

section \<open>Observations and example runs used in the statements\<close>

text \<open>What a placeholder of a request's expressions stands for.\<close>

definition attr_name :: "DocumentClientParams \<Rightarrow> string \<Rightarrow> string option" where
  "attr_name params k =
     (case ExpressionAttributeNames params of None \<Rightarrow> None | Some ns \<Rightarrow> map_of ns k)"

definition attr_operand :: "DocumentClientParams \<Rightarrow> string \<Rightarrow> attr_value option" where
  "attr_operand params k =
     (case ExpressionAttributeValues params of None \<Rightarrow> None | Some vs \<Rightarrow> map_of vs k)"

text \<open>The lock that a suspended \<open>lock\<close> call is acquiring, if the call is one.\<close>

fun acquires :: "pending \<Rightarrow> ref option" where
  "acquires (AwaitGet r _) = Some r"
| "acquires (AwaitCreate r _) = Some r"
| "acquires (AwaitWaitThenRetry r _ _) = Some r"
| "acquires (AwaitWaitThenSteal r _ _) = Some r"
| "acquires (AwaitSteal r _) = Some r"
| "acquires (AwaitDelete _) = None"
| "acquires (AwaitProlong _ _ _ _ _) = None"

definition acquiring :: "state \<Rightarrow> ref \<Rightarrow> bool" where
  "acquiring s r = (\<exists>t k. tasks s t = Some k \<and> acquires k = Some r)"

text \<open>A call is suspended in \<open>lock\<close> on the handle \<open>r\<close>, or is over.\<close>

definition acquiring_or_done :: "ref \<Rightarrow> pending option \<Rightarrow> bool" where
  "acquiring_or_done r ko = (case ko of None \<Rightarrow> True | Some k \<Rightarrow> acquires k = Some r)"

fun rejected_validation :: "outcome option \<Rightarrow> bool" where
  "rejected_validation (Some (Threw (LockOptionsValidationError _))) = True"
| "rejected_validation _ = False"

text \<open>The handle a finished \<open>lock\<close> call returned.\<close>

fun handle_of :: "outcome option \<Rightarrow> ref option" where
  "handle_of (Some (Returned (Some r))) = Some r"
| "handle_of _ = None"

fun granted :: "outcome option \<Rightarrow> bool" where
  "granted (Some (Returned _)) = True"
| "granted _ = False"

text \<open>
  What holds of the tasks in every state a coordinator reaches: a handle being
  acquired exists, is acquired by one call only, and a handle that a call has
  returned exists and is no longer being acquired.
\<close>

definition well_formed :: "state \<Rightarrow> bool" where
  "well_formed s =
     ((\<forall>t k r. tasks s t = Some k \<longrightarrow> acquires k = Some r \<longrightarrow> r < nextRef s) \<and>
      (\<forall>t r. handle_of (outcomes s t) = Some r \<longrightarrow> r < nextRef s \<and> \<not> acquiring s r) \<and>
      (\<forall>t t' k k' r. tasks s t = Some k \<longrightarrow> tasks s t' = Some k' \<longrightarrow>
          acquires k = Some r \<longrightarrow> acquires k' = Some r \<longrightarrow> t = t'))"

text \<open>The renewal writes issued for a handle, and the reads of the table, in a trace.\<close>

fun is_renewal_of :: "ref \<Rightarrow> task \<times> io \<Rightarrow> bool" where
  "is_renewal_of r (_, UpdateRecordVersionNumberAndTime r' _) = (r' = r)"
| "is_renewal_of r _ = False"

definition renewals :: "ref \<Rightarrow> state \<Rightarrow> (task \<times> io) list" where
  "renewals r s = filter (is_renewal_of r) (trace s)"

fun is_read :: "task \<times> io \<Rightarrow> bool" where
  "is_read (_, GetLockByGroupAndId _) = True"
| "is_read _ = False"

fun is_delete :: "task \<times> io \<Rightarrow> bool" where
  "is_delete (_, DeleteLock _ _) = True"
| "is_delete _ = False"


text \<open>
  A coordinator with the default table descriptor and a log callback, at time 1000;
  the backend's conditional failure; and the coordinator after \<open>lock(group, id)\<close>
  found no record and its put succeeded (reference 0 is the handle, timeout 0 its
  pending prolongation).
\<close>

definition example_uuids :: "nat \<Rightarrow> string" where
  "example_uuids n = ''uuid-'' @ show_nat n"

definition example_client :: state where
  "example_client =
     LockClient_new (LockTableConfig_new None None None None None) True example_uuids 1000"

definition conditionalCheckFailed :: reply where
  "conditionalCheckFailed = Reject (AWSError CONDITIONAL_CHECK_FAILED)"

definition example_held :: state where
  "example_held =
     steps [CallLock ''group'' ''id'' no_options, Replied 0 (Resolve None), Replied 0 (Resolve None)]
       example_client"

text \<open>A record another owner holds, as a strongly consistent read returns it.\<close>

definition example_record :: LockTableAttrs where
  "example_record =
     \<lparr> attrs_recordVersionNumber = Some ''v7'', attrs_ownerName = ''other'',
       attrs_lastUpdatedTimeInMs = Some 900, attrs_leaseDurationInMs = Some 15000,
       attrs_additionalAttributes = None \<rparr>"


definition renewed_record :: LockTableAttrs where
  "renewed_record =
     \<lparr> attrs_recordVersionNumber = Some ''uuid-2'', attrs_ownerName = ''uuid-0'',
       attrs_lastUpdatedTimeInMs = Some 6000, attrs_leaseDurationInMs = Some 20000,
       attrs_additionalAttributes = Some [] \<rparr>"

text \<open>
  A handle for which the coordinator has committed nothing: no registry entry holds
  it, no armed timeout has captured it, it is not acquired and records no timeout.
\<close>

definition untouched :: "state \<Rightarrow> ref \<Rightarrow> bool" where
  "untouched s r =
     (r \<notin> snd ` set (acquiredLocks s) \<and>
      (\<forall>th uid every. timers s th \<noteq> Some (uid, Some r, every)) \<and>
      \<not> isAcquired (heap s r) \<and> timeoutHandler (heap s r) = None)"

text \<open>The handles in the registry and in the closures of the armed timeouts exist.\<close>

definition known_handles :: "state \<Rightarrow> bool" where
  "known_handles s =
     ((\<forall>r \<in> snd ` set (acquiredLocks s). r < nextRef s) \<and>
      (\<forall>th uid r every. timers s th = Some (uid, Some r, every) \<longrightarrow> r < nextRef s))"





text \<open>
  A coordinator that locks \<open>group|id\<close> twice. The first handle (reference 0) is
  held and its timeout fires, so its renewal (task 1) is in flight; the backend
  applies it, but the reply is late. A second \<open>lock(group, id)\<close> (task 2, handle 1)
  reads the renewed record, waits its lease of 20000 ms and replaces the record,
  which registers handle 1 under \<open>group|id\<close> and arms timeout 1 for it. Then the
  late reply arrives.
\<close>

definition example_two_timers :: state where
  "example_two_timers =
     steps [Tick 5000, Fired 0, CallLock ''group'' ''id'' no_options,
            Replied 2 (Resolve (Some renewed_record)), Tick 20000, Elapsed 2,
            Replied 2 (Resolve None), Replied 1 (Resolve None)] example_held"

text \<open>The table descriptor \<open>LockTableConfig.create({ttlKey: "pk"})\<close>.\<close>

definition example_ttl_param :: LockTableConfigParam where
  "example_ttl_param =
     \<lparr> param_tableName = None, param_partitionKey = None, param_sortKey = None,
       param_ttlKey = Some ''pk'', param_ttlInMs = None \<rparr>"

definition example_ttl_config :: LockTableConfig where
  "example_ttl_config = LockTableConfig_new None None None (Some ''pk'') None"

text \<open>
  In the example runs a function update is read at an argument:
  \<open>(f(a := b)) x\<close> is \<open>b\<close> when \<open>x = a\<close> and \<open>f x\<close> otherwise.
\<close>

declare fun_upd_apply [code]

section \<open>The store adapter's conditions\<close>

lemmas expr_defs =
  PK_PATH_EXPRESSION_VARIABLE_def SK_PATH_EXPRESSION_VARIABLE_def PATH_EXPRESSION_def
  VALUE_EXPRESSION_def UPDATE_VALUE_EXPRESSION_def ACQUIRE_LOCK_THAT_DOESNT_EXIST_CONDITION_def
  LOCK_EXIST_CONDITION_def LOCK_EXIST_AND_RVN_SAME_CONDITION_def
  LOCK_EXIST_AND_RVN_AND_OWNER_NAME_SAME_CONDITION_def
  ATTRS_recordVersionNumber_def ATTRS_ownerName_def ATTRS_lastUpdatedTimeInMs_def
  ATTRS_leaseDurationInMs_def ATTRS_additionalAttributes_def

text \<open>
  Enabling the TTL adds one name and one operand to an update; it leaves the condition,
  the operands \<open>:recordVersionNumber\<close> and \<open>:ownerName\<close>, and every name that stands
  for its own attribute as they were.
\<close>

lemma updateTTLIfEnabled_condition:
  "ConditionExpression (updateTTLIfEnabled cfg now p) = ConditionExpression p"
  by (simp add: updateTTLIfEnabled_def Let_def split: option.splits)

lemma updateTTLIfEnabled_operand:
  "k = '':recordVersionNumber'' \<or> k = '':ownerName'' \<Longrightarrow>
   attr_operand (updateTTLIfEnabled cfg now p) k = attr_operand p k"
  by (auto simp add: updateTTLIfEnabled_def Let_def attr_operand_def update_conv'
      UPDATE_VALUE_EXPRESSION_def split: option.splits)

lemma updateTTLIfEnabled_name:
  "attr_name p (''#'' @ a) = Some a \<Longrightarrow>
   attr_name (updateTTLIfEnabled cfg now p) (''#'' @ a) = Some a"
  by (auto simp add: updateTTLIfEnabled_def Let_def attr_name_def update_conv'
      PATH_EXPRESSION_def split: option.splits)

lemma createNewLock_condition:
  "ConditionExpression (createNewLock_params cfg now l) =
     Some ''attribute_not_exists(#pk) AND attribute_not_exists(#sk)''"
  by (simp add: createNewLock_params_def Let_def expr_defs)

lemma createNewLock_names:
  "attr_name (createNewLock_params cfg now l) ''#pk'' = Some (partitionKey cfg)"
  "attr_name (createNewLock_params cfg now l) ''#sk'' = Some (sortKey cfg)"
  by (simp_all add: createNewLock_params_def Let_def expr_defs attr_name_def obj_def)

lemma steal_condition:
  "ConditionExpression (updateLockWithNewLockContent_params cfg now existingLock newLock) =
     Some ''attribute_exists(#pk) AND attribute_exists(#sk) AND #recordVersionNumber = :recordVersionNumber''"
  by (simp add: updateLockWithNewLockContent_params_def updateTTLIfEnabled_condition expr_defs)

lemma steal_operands:
  "attr_operand (updateLockWithNewLockContent_params cfg now existingLock newLock)
     '':recordVersionNumber'' = Some (opt_S (recordVersionNumber existingLock))"
  "attr_operand (updateLockWithNewLockContent_params cfg now existingLock newLock)
     '':ownerName'' = None"
  by (simp_all add: updateLockWithNewLockContent_params_def updateTTLIfEnabled_operand)
     (simp_all add: attr_operand_def obj_def expr_defs)

lemma steal_names:
  "attr_name (updateLockWithNewLockContent_params cfg now existingLock newLock)
     ''#recordVersionNumber'' = Some ''recordVersionNumber''"
  unfolding updateLockWithNewLockContent_params_def
  by (rule updateTTLIfEnabled_name [of _ "''recordVersionNumber''", simplified])
     (simp add: attr_name_def obj_def expr_defs)

lemma renew_condition:
  "ConditionExpression (updateRecordVersionNumberAndTime_params cfg now l newRvn when) =
     Some ''attribute_exists(#pk) AND attribute_exists(#sk) AND #recordVersionNumber = :recordVersionNumber AND #ownerName = :ownerName''"
  by (simp add: updateRecordVersionNumberAndTime_params_def updateTTLIfEnabled_condition expr_defs)

lemma renew_operands:
  "attr_operand (updateRecordVersionNumberAndTime_params cfg now l newRvn when)
     '':recordVersionNumber'' = Some (opt_S (recordVersionNumber l))"
  "attr_operand (updateRecordVersionNumberAndTime_params cfg now l newRvn when)
     '':ownerName'' = Some (S (ownerName l))"
  by (simp_all add: updateRecordVersionNumberAndTime_params_def updateTTLIfEnabled_operand)
     (simp_all add: attr_operand_def obj_def expr_defs)

lemma renew_names:
  "attr_name (updateRecordVersionNumberAndTime_params cfg now l newRvn when)
     ''#recordVersionNumber'' = Some ''recordVersionNumber''"
  "attr_name (updateRecordVersionNumberAndTime_params cfg now l newRvn when)
     ''#ownerName'' = Some ''ownerName''"
  unfolding updateRecordVersionNumberAndTime_params_def
  by (rule updateTTLIfEnabled_name [of _ "''recordVersionNumber''", simplified],
      simp add: attr_name_def obj_def expr_defs,
      rule updateTTLIfEnabled_name [of _ "''ownerName''", simplified],
      simp add: attr_name_def obj_def expr_defs)

lemma deleteLock_condition:
  "ConditionExpression (deleteLock_params cfg l) =
     Some ''attribute_exists(#pk) AND attribute_exists(#sk) AND #recordVersionNumber = :recordVersionNumber AND #ownerName = :ownerName''"
  by (simp add: deleteLock_params_def expr_defs)

lemma deleteLock_operands:
  "attr_operand (deleteLock_params cfg l) '':recordVersionNumber'' =
     Some (opt_S (recordVersionNumber l))"
  "attr_operand (deleteLock_params cfg l) '':ownerName'' = Some (S (ownerName l))"
  by (simp_all add: deleteLock_params_def attr_operand_def obj_def expr_defs)

lemma deleteLock_names:
  "attr_name (deleteLock_params cfg l) ''#pk'' = Some (partitionKey cfg)"
  "attr_name (deleteLock_params cfg l) ''#sk'' = Some (sortKey cfg)"
  "attr_name (deleteLock_params cfg l) ''#recordVersionNumber'' = Some ''recordVersionNumber''"
  "attr_name (deleteLock_params cfg l) ''#ownerName'' = Some ''ownerName''"
  by (simp_all add: deleteLock_params_def attr_name_def obj_def expr_defs)

text \<open>
  In an update the TTL's name \<open>#<ttlKey>\<close> is added last, so a descriptor whose
  \<open>ttlKey\<close> is the word \<open>pk\<close> makes \<open>#pk\<close> stand for the TTL attribute there.
\<close>

lemma map_of_foldl_update:
  "map_of (foldl (\<lambda>m (k, v). AList.update k v m) acc kvs) = map_of (rev kvs @ acc)"
  by (induction kvs arbitrary: acc) (auto simp add: update_conv')

lemma map_of_obj: "map_of (obj kvs) = map_of (rev kvs)"
  by (simp add: obj_def map_of_foldl_update)

lemma updateTTLIfEnabled_names:
  "attr_name (updateTTLIfEnabled cfg now p) k =
     (case truthy (ttlKey cfg) of
        None \<Rightarrow> attr_name p k
      | Some t \<Rightarrow> if k = ''#'' @ t then Some t else attr_name p k)"
  by (simp add: updateTTLIfEnabled_def Let_def attr_name_def update_conv'
      PATH_EXPRESSION_def split: option.splits)

lemma steal_pk_name:
  "attr_name (updateLockWithNewLockContent_params cfg now existingLock newLock) ''#pk'' =
     Some (if truthy (ttlKey cfg) = Some ''pk'' then ''pk'' else partitionKey cfg)"
  unfolding updateLockWithNewLockContent_params_def updateTTLIfEnabled_names
  by (simp add: attr_name_def map_of_obj expr_defs split: option.splits)

lemma renew_key_names:
  "attr_name (updateRecordVersionNumberAndTime_params cfg now l newRvn when) ''#pk'' =
     Some (if truthy (ttlKey cfg) = Some ''pk'' then ''pk'' else partitionKey cfg)"
  "attr_name (updateRecordVersionNumberAndTime_params cfg now l newRvn when) ''#sk'' =
     Some (if truthy (ttlKey cfg) = Some ''sk'' then ''sk'' else sortKey cfg)"
  unfolding updateRecordVersionNumberAndTime_params_def updateTTLIfEnabled_names
  by (simp_all add: attr_name_def map_of_obj expr_defs split: option.splits)

lemma steal_key_names:
  "attr_name (updateLockWithNewLockContent_params cfg now existingLock newLock) ''#pk'' =
     Some (if truthy (ttlKey cfg) = Some ''pk'' then ''pk'' else partitionKey cfg)"
  "attr_name (updateLockWithNewLockContent_params cfg now existingLock newLock) ''#sk'' =
     Some (if truthy (ttlKey cfg) = Some ''sk'' then ''sk'' else sortKey cfg)"
  unfolding updateLockWithNewLockContent_params_def updateTTLIfEnabled_names
  by (simp_all add: attr_name_def map_of_obj expr_defs split: option.splits)

lemma opt_S_cases: "opt_S x = (case x of None \<Rightarrow> Undefined | Some v \<Rightarrow> S v)"
  by (simp add: opt_S_def)

text \<open>
  The four writes of the adapter, whatever the table descriptor, the clock and the
  handles. Each carries the condition string of the source; \<open>#recordVersionNumber\<close>
  and \<open>#ownerName\<close> stand for the attributes of those names; \<open>:recordVersionNumber\<close>
  is the version of the lock passed in (the one read from the table for
  \<open>updateLockWithNewLockContent\<close>, the handle's for the other two) and
  \<open>:ownerName\<close> the handle's owner, which \<open>updateLockWithNewLockContent\<close> does not
  bind. In \<open>createNewLock\<close> and \<open>deleteLock\<close> the placeholders \<open>#pk\<close> and \<open>#sk\<close>
  stand for the partition and the sort key. In the two updates they do so unless
  the TTL attribute of the descriptor is named \<open>pk\<close> or \<open>sk\<close>: then the placeholder
  of that name stands for the TTL attribute.
\<close>

theorem adapter_write_conditions:
  "ConditionExpression (createNewLock_params cfg now l) =
     Some ''attribute_not_exists(#pk) AND attribute_not_exists(#sk)'' \<and>
   attr_name (createNewLock_params cfg now l) ''#pk'' = Some (partitionKey cfg) \<and>
   attr_name (createNewLock_params cfg now l) ''#sk'' = Some (sortKey cfg) \<and>
   ConditionExpression (updateLockWithNewLockContent_params cfg now existingLock l) =
     Some ''attribute_exists(#pk) AND attribute_exists(#sk) AND #recordVersionNumber = :recordVersionNumber'' \<and>
   attr_name (updateLockWithNewLockContent_params cfg now existingLock l) ''#pk'' =
     Some (if truthy (ttlKey cfg) = Some ''pk'' then ''pk'' else partitionKey cfg) \<and>
   attr_name (updateLockWithNewLockContent_params cfg now existingLock l) ''#sk'' =
     Some (if truthy (ttlKey cfg) = Some ''sk'' then ''sk'' else sortKey cfg) \<and>
   attr_name (updateLockWithNewLockContent_params cfg now existingLock l)
     ''#recordVersionNumber'' = Some ''recordVersionNumber'' \<and>
   attr_operand (updateLockWithNewLockContent_params cfg now existingLock l)
     '':recordVersionNumber'' =
     Some (case recordVersionNumber existingLock of None \<Rightarrow> Undefined | Some v \<Rightarrow> S v) \<and>
   attr_operand (updateLockWithNewLockContent_params cfg now existingLock l)
     '':ownerName'' = None \<and>
   ConditionExpression (updateRecordVersionNumberAndTime_params cfg now l newRvn when) =
     Some ''attribute_exists(#pk) AND attribute_exists(#sk) AND #recordVersionNumber = :recordVersionNumber AND #ownerName = :ownerName'' \<and>
   attr_name (updateRecordVersionNumberAndTime_params cfg now l newRvn when) ''#pk'' =
     Some (if truthy (ttlKey cfg) = Some ''pk'' then ''pk'' else partitionKey cfg) \<and>
   attr_name (updateRecordVersionNumberAndTime_params cfg now l newRvn when) ''#sk'' =
     Some (if truthy (ttlKey cfg) = Some ''sk'' then ''sk'' else sortKey cfg) \<and>
   attr_name (updateRecordVersionNumberAndTime_params cfg now l newRvn when)
     ''#recordVersionNumber'' = Some ''recordVersionNumber'' \<and>
   attr_name (updateRecordVersionNumberAndTime_params cfg now l newRvn when)
     ''#ownerName'' = Some ''ownerName'' \<and>
   attr_operand (updateRecordVersionNumberAndTime_params cfg now l newRvn when)
     '':recordVersionNumber'' =
     Some (case recordVersionNumber l of None \<Rightarrow> Undefined | Some v \<Rightarrow> S v) \<and>
   attr_operand (updateRecordVersionNumberAndTime_params cfg now l newRvn when)
     '':ownerName'' = Some (S (ownerName l)) \<and>
   ConditionExpression (deleteLock_params cfg l) =
     Some ''attribute_exists(#pk) AND attribute_exists(#sk) AND #recordVersionNumber = :recordVersionNumber AND #ownerName = :ownerName'' \<and>
   attr_name (deleteLock_params cfg l) ''#pk'' = Some (partitionKey cfg) \<and>
   attr_name (deleteLock_params cfg l) ''#sk'' = Some (sortKey cfg) \<and>
   attr_name (deleteLock_params cfg l) ''#recordVersionNumber'' = Some ''recordVersionNumber'' \<and>
   attr_name (deleteLock_params cfg l) ''#ownerName'' = Some ''ownerName'' \<and>
   attr_operand (deleteLock_params cfg l) '':recordVersionNumber'' =
     Some (case recordVersionNumber l of None \<Rightarrow> Undefined | Some v \<Rightarrow> S v) \<and>
   attr_operand (deleteLock_params cfg l) '':ownerName'' = Some (S (ownerName l))"
  by (intro conjI)
     (rule createNewLock_condition createNewLock_names steal_condition steal_names
        steal_key_names steal_operands [unfolded opt_S_cases] renew_condition renew_names
        renew_key_names renew_operands [unfolded opt_S_cases] deleteLock_condition
        deleteLock_names deleteLock_operands [unfolded opt_S_cases])+

text \<open>
  C2 at the table descriptor \<open>LockTableConfig.create({ttlKey: "pk"})\<close>, which
  \<open>create\<close> accepts: the partition key is \<open>lockId\<close> and the TTL attribute is named
  \<open>pk\<close>. The steal (\<open>updateLockWithNewLockContent\<close>) and the renewal
  (\<open>updateRecordVersionNumberAndTime\<close>) carry the conditions that begin with
  \<open>attribute_exists(#pk)\<close>, and in their \<open>ExpressionAttributeNames\<close> the
  placeholder \<open>#pk\<close> stands for the attribute \<open>pk\<close>, the TTL attribute, and not for
  the partition key \<open>lockId\<close>: \<open>updateTTLIfEnabled\<close> added \<open>#pk\<close> for the TTL
  attribute last. The condition therefore tests the TTL attribute where the claim
  has the partition key. In \<open>createNewLock\<close> and \<open>deleteLock\<close>, which add no TTL
  name, \<open>#pk\<close> stands for \<open>lockId\<close>.
\<close>

theorem C2_ttl_key_pk_takes_over_key_placeholder:
  "LockTableConfig_create example_ttl_param = Inr example_ttl_config \<and>
   partitionKey example_ttl_config = ''lockId'' \<and>
   ttlKey example_ttl_config = Some ''pk'' \<and>
   ConditionExpression
     (updateLockWithNewLockContent_params example_ttl_config now existingLock newLock) =
     Some ''attribute_exists(#pk) AND attribute_exists(#sk) AND #recordVersionNumber = :recordVersionNumber'' \<and>
   attr_name (updateLockWithNewLockContent_params example_ttl_config now existingLock newLock)
     ''#pk'' = Some ''pk'' \<and>
   ConditionExpression
     (updateRecordVersionNumberAndTime_params example_ttl_config now l newRvn when) =
     Some ''attribute_exists(#pk) AND attribute_exists(#sk) AND #recordVersionNumber = :recordVersionNumber AND #ownerName = :ownerName'' \<and>
   attr_name (updateRecordVersionNumberAndTime_params example_ttl_config now l newRvn when)
     ''#pk'' = Some ''pk'' \<and>
   attr_name (createNewLock_params example_ttl_config now l) ''#pk'' = Some ''lockId'' \<and>
   attr_name (deleteLock_params example_ttl_config l) ''#pk'' = Some ''lockId''"
proof -
  have cfg: "partitionKey example_ttl_config = ''lockId''"
    "sortKey example_ttl_config = ''lockGroup''"
    "ttlKey example_ttl_config = Some ''pk''"
    "truthy (ttlKey example_ttl_config) = Some ''pk''"
    by (simp_all add: example_ttl_config_def LockTableConfig_new_def truthy_def)
  have accepted: "LockTableConfig_create example_ttl_param = Inr example_ttl_config"
    by (simp add: LockTableConfig_create_def example_ttl_param_def example_ttl_config_def
        LockTableConfig_new_def RESERVED_ATTRS_def expr_defs truthy_def Let_def)
  show ?thesis
    using cfg accepted
    by (simp add: steal_condition renew_condition steal_key_names renew_key_names
        createNewLock_names deleteLock_names)
qed

section \<open>How each part of the coordinator changes the state\<close>

text \<open>
  The primitive steps change the fields their definitions name and no other, and
  the parts of the source functions inherit that. The lemmas below read one field
  after one part; they are what the proofs of the properties rest on.
\<close>

lemma log_fields [simp]:
  "config (log sev msg s) = config s"
  "logCallback (log sev msg s) = logCallback s"
  "clientOwnerName (log sev msg s) = clientOwnerName s"
  "acquiredLocks (log sev msg s) = acquiredLocks s"
  "heap (log sev msg s) = heap s"
  "timers (log sev msg s) = timers s"
  "tasks (log sev msg s) = tasks s"
  "outcomes (log sev msg s) = outcomes s"
  "trace (log sev msg s) = trace s"
  "logs (log sev msg s) = (if logCallback s then logs s @ [(sev, msg)] else logs s)"
  "nextRef (log sev msg s) = nextRef s"
  "nextTimeout (log sev msg s) = nextTimeout s"
  "nextTask (log sev msg s) = nextTask s"
  "clock (log sev msg s) = clock s"
  "uuids (log sev msg s) = uuids s"
  "nextUuid (log sev msg s) = nextUuid s"
  by (simp_all add: log_def)

lemma modify_fields [simp]:
  "config (modify r f s) = config s"
  "logCallback (modify r f s) = logCallback s"
  "clientOwnerName (modify r f s) = clientOwnerName s"
  "acquiredLocks (modify r f s) = acquiredLocks s"
  "heap (modify r f s) = (heap s)(r := f (heap s r))"
  "timers (modify r f s) = timers s"
  "tasks (modify r f s) = tasks s"
  "outcomes (modify r f s) = outcomes s"
  "trace (modify r f s) = trace s"
  "logs (modify r f s) = logs s"
  "nextRef (modify r f s) = nextRef s"
  "nextTimeout (modify r f s) = nextTimeout s"
  "nextTask (modify r f s) = nextTask s"
  "clock (modify r f s) = clock s"
  "uuids (modify r f s) = uuids s"
  "nextUuid (modify r f s) = nextUuid s"
  by (simp_all add: modify_def)

lemma suspend_fields [simp]:
  "config (suspend t req k s) = config s"
  "logCallback (suspend t req k s) = logCallback s"
  "clientOwnerName (suspend t req k s) = clientOwnerName s"
  "acquiredLocks (suspend t req k s) = acquiredLocks s"
  "heap (suspend t req k s) = heap s"
  "timers (suspend t req k s) = timers s"
  "tasks (suspend t req k s) = (tasks s)(t \<mapsto> k)"
  "outcomes (suspend t req k s) = outcomes s"
  "trace (suspend t req k s) = trace s @ [(t, req)]"
  "logs (suspend t req k s) = logs s"
  "nextRef (suspend t req k s) = nextRef s"
  "nextTimeout (suspend t req k s) = nextTimeout s"
  "nextTask (suspend t req k s) = nextTask s"
  "clock (suspend t req k s) = clock s"
  "uuids (suspend t req k s) = uuids s"
  "nextUuid (suspend t req k s) = nextUuid s"
  by (simp_all add: suspend_def)

lemma finish_fields [simp]:
  "config (finish t res s) = config s"
  "logCallback (finish t res s) = logCallback s"
  "clientOwnerName (finish t res s) = clientOwnerName s"
  "acquiredLocks (finish t res s) = acquiredLocks s"
  "heap (finish t res s) = heap s"
  "timers (finish t res s) = timers s"
  "tasks (finish t res s) = (tasks s)(t := None)"
  "outcomes (finish t res s) = (outcomes s)(t \<mapsto> res)"
  "trace (finish t res s) = trace s"
  "logs (finish t res s) = logs s"
  "nextRef (finish t res s) = nextRef s"
  "nextTimeout (finish t res s) = nextTimeout s"
  "nextTask (finish t res s) = nextTask s"
  "clock (finish t res s) = clock s"
  "uuids (finish t res s) = uuids s"
  "nextUuid (finish t res s) = nextUuid s"
  by (simp_all add: finish_def)

lemma clearTimeout_fields [simp]:
  "config (clearTimeout th s) = config s"
  "logCallback (clearTimeout th s) = logCallback s"
  "clientOwnerName (clearTimeout th s) = clientOwnerName s"
  "acquiredLocks (clearTimeout th s) = acquiredLocks s"
  "heap (clearTimeout th s) = heap s"
  "timers (clearTimeout th s) = (timers s)(th := None)"
  "tasks (clearTimeout th s) = tasks s"
  "outcomes (clearTimeout th s) = outcomes s"
  "trace (clearTimeout th s) = trace s"
  "logs (clearTimeout th s) = logs s"
  "nextRef (clearTimeout th s) = nextRef s"
  "nextTimeout (clearTimeout th s) = nextTimeout s"
  "nextTask (clearTimeout th s) = nextTask s"
  "clock (clearTimeout th s) = clock s"
  "uuids (clearTimeout th s) = uuids s"
  "nextUuid (clearTimeout th s) = nextUuid s"
  by (simp_all add: clearTimeout_def)

lemma generateUUID_fields [simp]:
  "fst (generateUUID s) = uuids s (nextUuid s)"
  "config (snd (generateUUID s)) = config s"
  "logCallback (snd (generateUUID s)) = logCallback s"
  "clientOwnerName (snd (generateUUID s)) = clientOwnerName s"
  "acquiredLocks (snd (generateUUID s)) = acquiredLocks s"
  "heap (snd (generateUUID s)) = heap s"
  "timers (snd (generateUUID s)) = timers s"
  "tasks (snd (generateUUID s)) = tasks s"
  "outcomes (snd (generateUUID s)) = outcomes s"
  "trace (snd (generateUUID s)) = trace s"
  "logs (snd (generateUUID s)) = logs s"
  "nextRef (snd (generateUUID s)) = nextRef s"
  "nextTimeout (snd (generateUUID s)) = nextTimeout s"
  "nextTask (snd (generateUUID s)) = nextTask s"
  "clock (snd (generateUUID s)) = clock s"
  "uuids (snd (generateUUID s)) = uuids s"
  "nextUuid (snd (generateUUID s)) = Suc (nextUuid s)"
  by (simp_all add: generateUUID_def)

lemma released_same [simp]:
  "config (released r s) = config s"
  "logCallback (released r s) = logCallback s"
  "clientOwnerName (released r s) = clientOwnerName s"
  "acquiredLocks (released r s) = acquiredLocks s"
  "tasks (released r s) = tasks s"
  "outcomes (released r s) = outcomes s"
  "trace (released r s) = trace s"
  "logs (released r s) = logs s"
  "nextRef (released r s) = nextRef s"
  "nextTimeout (released r s) = nextTimeout s"
  "nextTask (released r s) = nextTask s"
  "clock (released r s) = clock s"
  "uuids (released r s) = uuids s"
  "nextUuid (released r s) = nextUuid s"
  by (simp_all add: released_def Let_def split: option.splits)

lemma released_heap_other [simp]:
  "x \<noteq> r \<Longrightarrow> heap (released r s) x = heap s x"
  by (simp add: released_def Let_def split: option.splits)

lemma released_isAcquired [simp]:
  "isAcquired (heap (released r s) x) = (x \<noteq> r \<and> isAcquired (heap s x))"
  by (simp add: released_def Let_def split: option.splits)

lemma released_timeoutHandler [simp]:
  "timeoutHandler (heap (released r s) r) = None"
  by (simp add: released_def Let_def split: option.splits)

lemma released_timers:
  "timers (released r s) =
     (case timeoutHandler (heap s r) of None \<Rightarrow> timers s | Some th \<Rightarrow> (timers s)(th := None))"
  by (simp add: released_def Let_def split: option.splits)

lemma released_identifier [simp]:
  "getUniqueLockIdentifier (heap (released r s) x) = getUniqueLockIdentifier (heap s x)"
  by (simp add: released_def Let_def getUniqueLockIdentifier_def split: option.splits)

lemma foldl_released_same [simp]:
  "config (foldl (\<lambda>st lck. released lck st) s rs) = config s"
  "logCallback (foldl (\<lambda>st lck. released lck st) s rs) = logCallback s"
  "clientOwnerName (foldl (\<lambda>st lck. released lck st) s rs) = clientOwnerName s"
  "acquiredLocks (foldl (\<lambda>st lck. released lck st) s rs) = acquiredLocks s"
  "tasks (foldl (\<lambda>st lck. released lck st) s rs) = tasks s"
  "outcomes (foldl (\<lambda>st lck. released lck st) s rs) = outcomes s"
  "trace (foldl (\<lambda>st lck. released lck st) s rs) = trace s"
  "logs (foldl (\<lambda>st lck. released lck st) s rs) = logs s"
  "nextRef (foldl (\<lambda>st lck. released lck st) s rs) = nextRef s"
  "nextTimeout (foldl (\<lambda>st lck. released lck st) s rs) = nextTimeout s"
  "nextTask (foldl (\<lambda>st lck. released lck st) s rs) = nextTask s"
  "clock (foldl (\<lambda>st lck. released lck st) s rs) = clock s"
  "uuids (foldl (\<lambda>st lck. released lck st) s rs) = uuids s"
  "nextUuid (foldl (\<lambda>st lck. released lck st) s rs) = nextUuid s"
  by (induction rs arbitrary: s) simp_all

lemma foldl_released_isAcquired [simp]:
  "isAcquired (heap (foldl (\<lambda>st lck. released lck st) s rs) x) =
     (x \<notin> set rs \<and> isAcquired (heap s x))"
  by (induction rs arbitrary: s) auto

lemma startProlongingLease_same [simp]:
  "config (startProlongingLease uid every s) = config s"
  "logCallback (startProlongingLease uid every s) = logCallback s"
  "clientOwnerName (startProlongingLease uid every s) = clientOwnerName s"
  "acquiredLocks (startProlongingLease uid every s) = acquiredLocks s"
  "tasks (startProlongingLease uid every s) = tasks s"
  "outcomes (startProlongingLease uid every s) = outcomes s"
  "trace (startProlongingLease uid every s) = trace s"
  "logs (startProlongingLease uid every s) = logs s"
  "nextRef (startProlongingLease uid every s) = nextRef s"
  "nextTask (startProlongingLease uid every s) = nextTask s"
  "clock (startProlongingLease uid every s) = clock s"
  "uuids (startProlongingLease uid every s) = uuids s"
  "nextUuid (startProlongingLease uid every s) = nextUuid s"
  by (simp_all add: startProlongingLease_def Let_def split: option.splits)

lemma startProlongingLease_isAcquired [simp]:
  "isAcquired (heap (startProlongingLease uid every s) x) = isAcquired (heap s x)"
  by (simp add: startProlongingLease_def Let_def attemptProlonging_def split: option.splits)

lemma lockAcquired_same [simp]:
  "config (lockAcquired r s) = config s"
  "logCallback (lockAcquired r s) = logCallback s"
  "clientOwnerName (lockAcquired r s) = clientOwnerName s"
  "tasks (lockAcquired r s) = tasks s"
  "outcomes (lockAcquired r s) = outcomes s"
  "trace (lockAcquired r s) = trace s"
  "nextRef (lockAcquired r s) = nextRef s"
  "nextTask (lockAcquired r s) = nextTask s"
  "clock (lockAcquired r s) = clock s"
  "uuids (lockAcquired r s) = uuids s"
  "nextUuid (lockAcquired r s) = nextUuid s"
  by (simp_all add: lockAcquired_def Let_def)

lemma lockAcquired_isAcquired [simp]:
  "x \<noteq> r \<Longrightarrow> isAcquired (heap (lockAcquired r s) x) = isAcquired (heap s x)"
  by (simp add: lockAcquired_def Let_def)

lemmas acquire_defs =
  acquireLock_def acquireNewLock_def stealExistingLock_def tryStealingExistingLock_def
  acquireLock_read_def tryStealingExistingLock_retry_def tryStealingExistingLock_steal_def

lemma attempt_isAcquired [simp]:
  "isAcquired (attemptLocking u w l) = isAcquired l"
  "isAcquired (resetLockingAttempt l) = isAcquired l"
  "isAcquired (attemptProlonging th l) = isAcquired l"
  "isAcquired (prolonged u w l) = isAcquired l"
  "isAcquired (acquired l)"
  by (simp_all add: attemptLocking_def resetLockingAttempt_def attemptProlonging_def
      prolonged_def acquired_def)

lemma validate_acquired: "isAcquired l \<Longrightarrow> validate l = Inr ()"
  by (simp add: validate_def)

lemma create_acquired:
  "create grp lid own rvn lut True opts =
     Inr (Lock_new lid grp own rvn lut True (opt_leaseDurationInMs opts)
            (opt_additionalAttributes opts) (opt_prolongLeaseEnabled opts)
            (opt_prolongEveryMs opts) (opt_maxRetryCount opts) (opt_trustLocalTime opts)
            (opt_waitDurationInMs opts))"
  by (simp add: create_def Let_def validate_acquired Lock_new_def)

lemma acquireLock_same [simp]:
  "config (acquireLock t r rc s) = config s"
  "logCallback (acquireLock t r rc s) = logCallback s"
  "clientOwnerName (acquireLock t r rc s) = clientOwnerName s"
  "acquiredLocks (acquireLock t r rc s) = acquiredLocks s"
  "timers (acquireLock t r rc s) = timers s"
  "nextRef (acquireLock t r rc s) = nextRef s"
  "nextTimeout (acquireLock t r rc s) = nextTimeout s"
  "nextTask (acquireLock t r rc s) = nextTask s"
  "clock (acquireLock t r rc s) = clock s"
  "uuids (acquireLock t r rc s) = uuids s"
  "t' \<noteq> t \<Longrightarrow> tasks (acquireLock t r rc s) t' = tasks s t'"
  "t' \<noteq> t \<Longrightarrow> outcomes (acquireLock t r rc s) t' = outcomes s t'"
  "isAcquired (heap (acquireLock t r rc s) x) = isAcquired (heap s x)"
  "filter (is_renewal_of x) (trace (acquireLock t r rc s)) = filter (is_renewal_of x) (trace s)"
  "filter is_delete (trace (acquireLock t r rc s)) = filter is_delete (trace s)"
  by (simp_all add: acquire_defs create_acquired Let_def split_def
      split: reply.splits option.splits)

lemma acquireLock_read_same [simp]:
  "config (acquireLock_read t r rc rep s) = config s"
  "logCallback (acquireLock_read t r rc rep s) = logCallback s"
  "clientOwnerName (acquireLock_read t r rc rep s) = clientOwnerName s"
  "acquiredLocks (acquireLock_read t r rc rep s) = acquiredLocks s"
  "timers (acquireLock_read t r rc rep s) = timers s"
  "nextRef (acquireLock_read t r rc rep s) = nextRef s"
  "nextTimeout (acquireLock_read t r rc rep s) = nextTimeout s"
  "nextTask (acquireLock_read t r rc rep s) = nextTask s"
  "clock (acquireLock_read t r rc rep s) = clock s"
  "uuids (acquireLock_read t r rc rep s) = uuids s"
  "t' \<noteq> t \<Longrightarrow> tasks (acquireLock_read t r rc rep s) t' = tasks s t'"
  "t' \<noteq> t \<Longrightarrow> outcomes (acquireLock_read t r rc rep s) t' = outcomes s t'"
  "isAcquired (heap (acquireLock_read t r rc rep s) x) = isAcquired (heap s x)"
  "filter (is_renewal_of x) (trace (acquireLock_read t r rc rep s)) = filter (is_renewal_of x) (trace s)"
  "filter is_delete (trace (acquireLock_read t r rc rep s)) = filter is_delete (trace s)"
  by (simp_all add: acquire_defs create_acquired Let_def split_def
      split: reply.splits option.splits)

lemma tryStealingExistingLock_retry_same [simp]:
  "config (tryStealingExistingLock_retry t r wd rc s) = config s"
  "logCallback (tryStealingExistingLock_retry t r wd rc s) = logCallback s"
  "clientOwnerName (tryStealingExistingLock_retry t r wd rc s) = clientOwnerName s"
  "acquiredLocks (tryStealingExistingLock_retry t r wd rc s) = acquiredLocks s"
  "timers (tryStealingExistingLock_retry t r wd rc s) = timers s"
  "nextRef (tryStealingExistingLock_retry t r wd rc s) = nextRef s"
  "nextTimeout (tryStealingExistingLock_retry t r wd rc s) = nextTimeout s"
  "nextTask (tryStealingExistingLock_retry t r wd rc s) = nextTask s"
  "clock (tryStealingExistingLock_retry t r wd rc s) = clock s"
  "uuids (tryStealingExistingLock_retry t r wd rc s) = uuids s"
  "t' \<noteq> t \<Longrightarrow> tasks (tryStealingExistingLock_retry t r wd rc s) t' = tasks s t'"
  "t' \<noteq> t \<Longrightarrow> outcomes (tryStealingExistingLock_retry t r wd rc s) t' = outcomes s t'"
  "isAcquired (heap (tryStealingExistingLock_retry t r wd rc s) x) = isAcquired (heap s x)"
  "filter (is_renewal_of x) (trace (tryStealingExistingLock_retry t r wd rc s)) = filter (is_renewal_of x) (trace s)"
  "filter is_delete (trace (tryStealingExistingLock_retry t r wd rc s)) = filter is_delete (trace s)"
  by (simp_all add: acquire_defs create_acquired Let_def split_def
      split: reply.splits option.splits)

lemma tryStealingExistingLock_steal_same [simp]:
  "config (tryStealingExistingLock_steal t r ex rc s) = config s"
  "logCallback (tryStealingExistingLock_steal t r ex rc s) = logCallback s"
  "clientOwnerName (tryStealingExistingLock_steal t r ex rc s) = clientOwnerName s"
  "acquiredLocks (tryStealingExistingLock_steal t r ex rc s) = acquiredLocks s"
  "timers (tryStealingExistingLock_steal t r ex rc s) = timers s"
  "nextRef (tryStealingExistingLock_steal t r ex rc s) = nextRef s"
  "nextTimeout (tryStealingExistingLock_steal t r ex rc s) = nextTimeout s"
  "nextTask (tryStealingExistingLock_steal t r ex rc s) = nextTask s"
  "clock (tryStealingExistingLock_steal t r ex rc s) = clock s"
  "uuids (tryStealingExistingLock_steal t r ex rc s) = uuids s"
  "t' \<noteq> t \<Longrightarrow> tasks (tryStealingExistingLock_steal t r ex rc s) t' = tasks s t'"
  "t' \<noteq> t \<Longrightarrow> outcomes (tryStealingExistingLock_steal t r ex rc s) t' = outcomes s t'"
  "isAcquired (heap (tryStealingExistingLock_steal t r ex rc s) x) = isAcquired (heap s x)"
  "filter (is_renewal_of x) (trace (tryStealingExistingLock_steal t r ex rc s)) = filter (is_renewal_of x) (trace s)"
  "filter is_delete (trace (tryStealingExistingLock_steal t r ex rc s)) = filter is_delete (trace s)"
  by (simp_all add: acquire_defs create_acquired Let_def split_def
      split: reply.splits option.splits)

text \<open>
  The parts of \<open>lock\<close> before the write is answered leave the call suspended in
  \<open>lock\<close> on its handle, or end it with an error other than the validation error.
\<close>

lemma acquireLock_own:
  "acquiring_or_done r (tasks (acquireLock t r rc s) t)"
  "rejected_validation (outcomes (acquireLock t r rc s) t) \<Longrightarrow> rejected_validation (outcomes s t)"
  "granted (outcomes (acquireLock t r rc s) t) \<Longrightarrow> granted (outcomes s t)"
  by (simp_all add: acquire_defs create_acquired acquiring_or_done_def Let_def split_def
      split: reply.splits option.splits if_splits)

lemma acquireLock_read_own:
  "acquiring_or_done r (tasks (acquireLock_read t r rc rep s) t)"
  "rejected_validation (outcomes (acquireLock_read t r rc rep s) t) \<Longrightarrow> rejected_validation (outcomes s t)"
  "granted (outcomes (acquireLock_read t r rc rep s) t) \<Longrightarrow> granted (outcomes s t)"
  by (simp_all add: acquire_defs create_acquired acquiring_or_done_def Let_def split_def
      split: reply.splits option.splits if_splits)

lemma tryStealingExistingLock_retry_own:
  "acquiring_or_done r (tasks (tryStealingExistingLock_retry t r wd rc s) t)"
  "rejected_validation (outcomes (tryStealingExistingLock_retry t r wd rc s) t) \<Longrightarrow> rejected_validation (outcomes s t)"
  "granted (outcomes (tryStealingExistingLock_retry t r wd rc s) t) \<Longrightarrow> granted (outcomes s t)"
  by (simp_all add: acquire_defs create_acquired acquiring_or_done_def Let_def split_def
      split: reply.splits option.splits if_splits)

lemma tryStealingExistingLock_steal_own:
  "acquiring_or_done r (tasks (tryStealingExistingLock_steal t r ex rc s) t)"
  "rejected_validation (outcomes (tryStealingExistingLock_steal t r ex rc s) t) \<Longrightarrow> rejected_validation (outcomes s t)"
  "granted (outcomes (tryStealingExistingLock_steal t r ex rc s) t) \<Longrightarrow> granted (outcomes s t)"
  by (simp_all add: acquire_defs create_acquired acquiring_or_done_def Let_def split_def
      split: reply.splits option.splits if_splits)

lemma acquiring_or_done_None [simp]: "acquiring_or_done r None"
  by (simp add: acquiring_or_done_def)


text \<open>
  The parts after a write: a success commits (\<open>lockAcquired\<close>) and ends the call
  with the handle; a conditional failure goes round again; another error ends it.
\<close>

lemma acquireNewLock_written_same [simp]:
  "config (acquireNewLock_written t r rc rep s) = config s"
  "logCallback (acquireNewLock_written t r rc rep s) = logCallback s"
  "clientOwnerName (acquireNewLock_written t r rc rep s) = clientOwnerName s"
  "nextRef (acquireNewLock_written t r rc rep s) = nextRef s"
  "nextTask (acquireNewLock_written t r rc rep s) = nextTask s"
  "clock (acquireNewLock_written t r rc rep s) = clock s"
  "uuids (acquireNewLock_written t r rc rep s) = uuids s"
  "t' \<noteq> t \<Longrightarrow> tasks (acquireNewLock_written t r rc rep s) t' = tasks s t'"
  "t' \<noteq> t \<Longrightarrow> outcomes (acquireNewLock_written t r rc rep s) t' = outcomes s t'"
  "x \<noteq> r \<Longrightarrow> isAcquired (heap (acquireNewLock_written t r rc rep s) x) = isAcquired (heap s x)"
  "filter (is_renewal_of x) (trace (acquireNewLock_written t r rc rep s)) = filter (is_renewal_of x) (trace s)"
  "filter is_delete (trace (acquireNewLock_written t r rc rep s)) = filter is_delete (trace s)"
  "acquiring_or_done r (tasks (acquireNewLock_written t r rc rep s) t)"
  by (simp_all add: acquireNewLock_written_def acquireLock_own Let_def split: reply.splits)

lemma acquireNewLock_written_validation:
  "rejected_validation (outcomes (acquireNewLock_written t r rc rep s) t) \<Longrightarrow> rejected_validation (outcomes s t)"
  by (cases rep) (auto simp add: acquireNewLock_written_def Let_def dest: acquireLock_own(2) split: if_splits)


lemma stealExistingLock_written_same [simp]:
  "config (stealExistingLock_written t r rc rep s) = config s"
  "logCallback (stealExistingLock_written t r rc rep s) = logCallback s"
  "clientOwnerName (stealExistingLock_written t r rc rep s) = clientOwnerName s"
  "nextRef (stealExistingLock_written t r rc rep s) = nextRef s"
  "nextTask (stealExistingLock_written t r rc rep s) = nextTask s"
  "clock (stealExistingLock_written t r rc rep s) = clock s"
  "uuids (stealExistingLock_written t r rc rep s) = uuids s"
  "t' \<noteq> t \<Longrightarrow> tasks (stealExistingLock_written t r rc rep s) t' = tasks s t'"
  "t' \<noteq> t \<Longrightarrow> outcomes (stealExistingLock_written t r rc rep s) t' = outcomes s t'"
  "x \<noteq> r \<Longrightarrow> isAcquired (heap (stealExistingLock_written t r rc rep s) x) = isAcquired (heap s x)"
  "filter (is_renewal_of x) (trace (stealExistingLock_written t r rc rep s)) = filter (is_renewal_of x) (trace s)"
  "filter is_delete (trace (stealExistingLock_written t r rc rep s)) = filter is_delete (trace s)"
  "acquiring_or_done r (tasks (stealExistingLock_written t r rc rep s) t)"
  by (simp_all add: stealExistingLock_written_def acquireLock_own Let_def split: reply.splits)

lemma stealExistingLock_written_validation:
  "rejected_validation (outcomes (stealExistingLock_written t r rc rep s) t) \<Longrightarrow> rejected_validation (outcomes s t)"
  by (cases rep) (auto simp add: stealExistingLock_written_def Let_def dest: acquireLock_own(2) split: if_splits)


text \<open>Release, the timer callback, and the calls that start a new task.\<close>

lemma releaseLock_deleted_same [simp]:
  "config (releaseLock_deleted t r rep s) = config s"
  "logCallback (releaseLock_deleted t r rep s) = logCallback s"
  "clientOwnerName (releaseLock_deleted t r rep s) = clientOwnerName s"
  "acquiredLocks (releaseLock_deleted t r rep s) = acquiredLocks s"
  "heap (releaseLock_deleted t r rep s) = heap s"
  "timers (releaseLock_deleted t r rep s) = timers s"
  "trace (releaseLock_deleted t r rep s) = trace s"
  "nextRef (releaseLock_deleted t r rep s) = nextRef s"
  "nextTimeout (releaseLock_deleted t r rep s) = nextTimeout s"
  "nextTask (releaseLock_deleted t r rep s) = nextTask s"
  "clock (releaseLock_deleted t r rep s) = clock s"
  "uuids (releaseLock_deleted t r rep s) = uuids s"
  "nextUuid (releaseLock_deleted t r rep s) = nextUuid s"
  "t' \<noteq> t \<Longrightarrow> tasks (releaseLock_deleted t r rep s) t' = tasks s t'"
  "t' \<noteq> t \<Longrightarrow> outcomes (releaseLock_deleted t r rep s) t' = outcomes s t'"
  "tasks (releaseLock_deleted t r rep s) t = None"
  "\<not> rejected_validation (outcomes (releaseLock_deleted t r rep s) t)"
  by (simp_all add: releaseLock_deleted_def split: reply.splits)

lemma prolongLease_written_same [simp]:
  "config (prolongLease_written t r u now uid every rep s) = config s"
  "logCallback (prolongLease_written t r u now uid every rep s) = logCallback s"
  "clientOwnerName (prolongLease_written t r u now uid every rep s) = clientOwnerName s"
  "acquiredLocks (prolongLease_written t r u now uid every rep s) = acquiredLocks s"
  "trace (prolongLease_written t r u now uid every rep s) = trace s"
  "nextRef (prolongLease_written t r u now uid every rep s) = nextRef s"
  "nextTask (prolongLease_written t r u now uid every rep s) = nextTask s"
  "clock (prolongLease_written t r u now uid every rep s) = clock s"
  "uuids (prolongLease_written t r u now uid every rep s) = uuids s"
  "nextUuid (prolongLease_written t r u now uid every rep s) = nextUuid s"
  "t' \<noteq> t \<Longrightarrow> tasks (prolongLease_written t r u now uid every rep s) t' = tasks s t'"
  "t' \<noteq> t \<Longrightarrow> outcomes (prolongLease_written t r u now uid every rep s) t' = outcomes s t'"
  "tasks (prolongLease_written t r u now uid every rep s) t = None"
  "\<not> rejected_validation (outcomes (prolongLease_written t r u now uid every rep s) t)"
  "isAcquired (heap (prolongLease_written t r u now uid every rep s) x) = isAcquired (heap s x)"
  by (simp_all add: prolongLease_written_def Let_def split: reply.splits)

lemma prolongLease_same [simp]:
  "config (prolongLease t r uid every s) = config s"
  "logCallback (prolongLease t r uid every s) = logCallback s"
  "clientOwnerName (prolongLease t r uid every s) = clientOwnerName s"
  "acquiredLocks (prolongLease t r uid every s) = acquiredLocks s"
  "heap (prolongLease t r uid every s) = heap s"
  "timers (prolongLease t r uid every s) = timers s"
  "outcomes (prolongLease t r uid every s) = outcomes s"
  "logs (prolongLease t r uid every s) = logs s"
  "nextRef (prolongLease t r uid every s) = nextRef s"
  "nextTimeout (prolongLease t r uid every s) = nextTimeout s"
  "nextTask (prolongLease t r uid every s) = nextTask s"
  "clock (prolongLease t r uid every s) = clock s"
  "uuids (prolongLease t r uid every s) = uuids s"
  "t' \<noteq> t \<Longrightarrow> tasks (prolongLease t r uid every s) t' = tasks s t'"
  "acquires (the (tasks (prolongLease t r uid every s) t)) = None"
  "tasks (prolongLease t r uid every s) t \<noteq> None"
  "x \<noteq> r \<Longrightarrow> filter (is_renewal_of x) (trace (prolongLease t r uid every s)) = filter (is_renewal_of x) (trace s)"
  "filter is_delete (trace (prolongLease t r uid every s)) = filter is_delete (trace s)"
  by (simp_all add: prolongLease_def Let_def split_def)

lemma timeoutFired_same [simp]:
  "config (timeoutFired th s) = config s"
  "logCallback (timeoutFired th s) = logCallback s"
  "clientOwnerName (timeoutFired th s) = clientOwnerName s"
  "acquiredLocks (timeoutFired th s) = acquiredLocks s"
  "heap (timeoutFired th s) = heap s"
  "logs (timeoutFired th s) = logs s"
  "nextRef (timeoutFired th s) = nextRef s"
  "nextTimeout (timeoutFired th s) = nextTimeout s"
  "clock (timeoutFired th s) = clock s"
  "uuids (timeoutFired th s) = uuids s"
  "t' \<noteq> nextTask s \<Longrightarrow> tasks (timeoutFired th s) t' = tasks s t'"
  "t' \<noteq> nextTask s \<Longrightarrow> outcomes (timeoutFired th s) t' = outcomes s t'"
  "nextTask s \<le> nextTask (timeoutFired th s)"
  "filter is_delete (trace (timeoutFired th s)) = filter is_delete (trace s)"
  by (simp_all add: timeoutFired_def Let_def split: option.splits)

lemma timeoutFired_renewals:
  assumes "\<not> isAcquired (heap s x)"
  shows "filter (is_renewal_of x) (trace (timeoutFired th s)) = filter (is_renewal_of x) (trace s)"
proof (cases "timers s th")
  case None
  then show ?thesis by (simp add: timeoutFired_def)
next
  case (Some c)
  obtain uid lck every where c: "c = (uid, lck, every)" by (cases c)
  show ?thesis
  proof (cases lck)
    case None
    then show ?thesis using Some c by (simp add: timeoutFired_def Let_def)
  next
    case lck: (Some r)
    show ?thesis
    proof (cases "isAcquired (heap s r)")
      case True
      then have "x \<noteq> r" using assms by auto
      then show ?thesis using Some c lck True by (simp add: timeoutFired_def Let_def)
    next
      case False
      then show ?thesis using Some c lck by (simp add: timeoutFired_def Let_def)
    qed
  qed
qed

lemma timeoutFired_own:
  "tasks s (nextTask s) = None \<Longrightarrow> tasks (timeoutFired th s) (nextTask s) = None \<or>
     (\<exists>k. tasks (timeoutFired th s) (nextTask s) = Some k \<and> acquires k = None)"
  "rejected_validation (outcomes (timeoutFired th s) (nextTask s)) \<Longrightarrow>
     rejected_validation (outcomes s (nextTask s))"
  by (auto simp add: timeoutFired_def prolongLease_def Let_def split_def split: option.splits if_splits)

lemma releaseLock_same [simp]:
  "config (releaseLock r s) = config s"
  "logCallback (releaseLock r s) = logCallback s"
  "clientOwnerName (releaseLock r s) = clientOwnerName s"
  "outcomes (releaseLock r s) = outcomes s"
  "logs (releaseLock r s) = logs s"
  "nextRef (releaseLock r s) = nextRef s"
  "nextTimeout (releaseLock r s) = nextTimeout s"
  "clock (releaseLock r s) = clock s"
  "uuids (releaseLock r s) = uuids s"
  "nextUuid (releaseLock r s) = nextUuid s"
  "nextTask (releaseLock r s) = Suc (nextTask s)"
  "tasks (releaseLock r s) = (tasks s)(nextTask s \<mapsto> AwaitDelete r)"
  "isAcquired (heap (releaseLock r s) x) = (x \<noteq> r \<and> isAcquired (heap s x))"
  "filter (is_renewal_of x) (trace (releaseLock r s)) = filter (is_renewal_of x) (trace s)"
  by (simp_all add: releaseLock_def Let_def)

lemma releaseAllLocks_same [simp]:
  "config (releaseAllLocks s) = config s"
  "logCallback (releaseAllLocks s) = logCallback s"
  "clientOwnerName (releaseAllLocks s) = clientOwnerName s"
  "trace (releaseAllLocks s) = trace s"
  "logs (releaseAllLocks s) = logs s"
  "nextRef (releaseAllLocks s) = nextRef s"
  "nextTimeout (releaseAllLocks s) = nextTimeout s"
  "clock (releaseAllLocks s) = clock s"
  "uuids (releaseAllLocks s) = uuids s"
  "nextUuid (releaseAllLocks s) = nextUuid s"
  "nextTask (releaseAllLocks s) = Suc (nextTask s)"
  "tasks (releaseAllLocks s) = (tasks s)(nextTask s := None)"
  "outcomes (releaseAllLocks s) = (outcomes s)(nextTask s \<mapsto> Returned None)"
  "acquiredLocks (releaseAllLocks s) = []"
  "isAcquired (heap (releaseAllLocks s) x) = (x \<notin> snd ` set (acquiredLocks s) \<and> isAcquired (heap s x))"
  by (simp_all add: releaseAllLocks_def Let_def)

lemma lock_same [simp]:
  "config (lock grp lid opts s) = config s"
  "logCallback (lock grp lid opts s) = logCallback s"
  "clientOwnerName (lock grp lid opts s) = clientOwnerName s"
  "acquiredLocks (lock grp lid opts s) = acquiredLocks s"
  "timers (lock grp lid opts s) = timers s"
  "nextTimeout (lock grp lid opts s) = nextTimeout s"
  "clock (lock grp lid opts s) = clock s"
  "uuids (lock grp lid opts s) = uuids s"
  "nextTask (lock grp lid opts s) = Suc (nextTask s)"
  "t' \<noteq> nextTask s \<Longrightarrow> tasks (lock grp lid opts s) t' = tasks s t'"
  "t' \<noteq> nextTask s \<Longrightarrow> outcomes (lock grp lid opts s) t' = outcomes s t'"
  "nextRef s \<le> nextRef (lock grp lid opts s)"
  "x \<noteq> nextRef s \<Longrightarrow> isAcquired (heap (lock grp lid opts s) x) = isAcquired (heap s x)"
  "acquiring_or_done (nextRef s) (tasks (lock grp lid opts s) (nextTask s))"
  "filter (is_renewal_of x) (trace (lock grp lid opts s)) = filter (is_renewal_of x) (trace s)"
  "filter is_delete (trace (lock grp lid opts s)) = filter is_delete (trace s)"
  by (simp_all add: lock_def Let_def acquireLock_own split: sum.splits)

text \<open>Resuming a suspended call; an event that is not enabled is a no-op.\<close>

lemma resume_idle [simp]: "tasks s t = None \<Longrightarrow> resume t rep s = s"
  by (simp add: resume_def)

lemma wake_idle [simp]: "tasks s t = None \<Longrightarrow> wake t s = s"
  by (simp add: wake_def)

lemma resume_nextTask [simp]: "nextTask (resume t rep s) = nextTask s"
  by (simp add: resume_def split: option.splits pending.splits)

lemma wake_nextTask [simp]: "nextTask (wake t s) = nextTask s"
  by (simp add: wake_def split: option.splits pending.splits)

lemma resume_nextRef [simp]: "nextRef (resume t rep s) = nextRef s"
  by (simp add: resume_def split: option.splits pending.splits)

lemma wake_nextRef [simp]: "nextRef (wake t s) = nextRef s"
  by (simp add: wake_def split: option.splits pending.splits)

lemma resume_other [simp]:
  "t' \<noteq> t \<Longrightarrow> tasks (resume t rep s) t' = tasks s t'"
  "t' \<noteq> t \<Longrightarrow> outcomes (resume t rep s) t' = outcomes s t'"
  by (simp_all add: resume_def split: option.splits pending.splits)

lemma wake_other [simp]:
  "t' \<noteq> t \<Longrightarrow> tasks (wake t s) t' = tasks s t'"
  "t' \<noteq> t \<Longrightarrow> outcomes (wake t s) t' = outcomes s t'"
  by (simp_all add: wake_def split: option.splits pending.splits)

lemma resume_validation:
  "rejected_validation (outcomes (resume t rep s) t) \<Longrightarrow> rejected_validation (outcomes s t)"
  by (auto simp add: resume_def split: option.splits pending.splits
      dest: acquireLock_read_own(2) acquireNewLock_written_validation
        stealExistingLock_written_validation)

lemma wake_validation:
  "rejected_validation (outcomes (wake t s) t) \<Longrightarrow> rejected_validation (outcomes s t)"
  by (auto simp add: wake_def split: option.splits pending.splits
      dest: tryStealingExistingLock_retry_own(2) tryStealingExistingLock_steal_own(2))

lemma step_nextTask: "nextTask s \<le> nextTask (step e s)"
  by (cases e) simp_all

text \<open>A call that is over stays over, and its outcome stays what it was.\<close>

lemma step_finished:
  "t < nextTask s \<Longrightarrow> tasks s t = None \<Longrightarrow>
   tasks (step e s) t = None \<and> outcomes (step e s) t = outcomes s t"
proof (cases e)
  case (Replied t' rep)
  assume "t < nextTask s" "tasks s t = None"
  then show ?thesis using Replied by (cases "t' = t") simp_all
next
  case (Elapsed t')
  assume "t < nextTask s" "tasks s t = None"
  then show ?thesis using Elapsed by (cases "t' = t") simp_all
qed simp_all

lemma steps_finished:
  "t < nextTask s \<Longrightarrow> tasks s t = None \<Longrightarrow>
   tasks (steps evs s) t = None \<and> outcomes (steps evs s) t = outcomes s t"
proof (induction evs arbitrary: s)
  case Nil
  then show ?case by simp
next
  case (Cons e evs)
  have "t < nextTask (step e s)"
    using Cons.prems(1) step_nextTask [of s e] by simp
  moreover have "tasks (step e s) t = None" "outcomes (step e s) t = outcomes s t"
    using step_finished [OF Cons.prems] by simp_all
  ultimately show ?case using Cons.IH [of "step e s"] by simp
qed

text \<open>Only the call's own first part can end it with the validation error.\<close>

lemma step_validation:
  "t < nextTask s \<Longrightarrow> rejected_validation (outcomes (step e s) t) \<Longrightarrow>
   rejected_validation (outcomes s t)"
proof (cases e)
  case (Replied t' rep)
  assume "t < nextTask s" "rejected_validation (outcomes (step e s) t)"
  then show ?thesis using Replied resume_validation [of t rep s] by (cases "t' = t") simp_all
next
  case (Elapsed t')
  assume "t < nextTask s" "rejected_validation (outcomes (step e s) t)"
  then show ?thesis using Elapsed wake_validation [of t s] by (cases "t' = t") simp_all
qed auto

lemma steps_validation:
  "t < nextTask s \<Longrightarrow> rejected_validation (outcomes (steps evs s) t) \<Longrightarrow>
   rejected_validation (outcomes s t)"
proof (induction evs arbitrary: s)
  case Nil
  then show ?case by simp
next
  case (Cons e evs)
  have "t < nextTask (step e s)"
    using Cons.prems(1) step_nextTask [of s e] by simp
  then have "rejected_validation (outcomes (step e s) t)"
    using Cons.IH [of "step e s"] Cons.prems(2) by simp
  then show ?case using step_validation [OF Cons.prems(1)] by simp
qed

section \<open>The lock entity\<close>

text \<open>
  \<open>create\<close> with the constructor's defaults written out: its one check is the
  prolongation period against half the lease.
\<close>

lemma create_eq:
  "create grp lid own rvn lut acq opts =
     (if \<not> acq \<and> opt_prolongLeaseEnabled opts \<noteq> Some False \<and>
         rat_of_int (case opt_prolongEveryMs opts of None \<Rightarrow> 5000 | Some p \<Rightarrow> p)
           \<ge> rat_of_int (case opt_leaseDurationInMs opts of None \<Rightarrow> 20000 | Some d \<Rightarrow> d) / 2
      then Inl (LockOptionsValidationError
             (''prolongEveryMs('' @
              show_int (case opt_prolongEveryMs opts of None \<Rightarrow> 5000 | Some p \<Rightarrow> p) @
              '') can not be longer than leaseDurationInMs/2('' @
              show_int (case opt_leaseDurationInMs opts of None \<Rightarrow> 20000 | Some d \<Rightarrow> d) @
              '')''))
      else Inr (Lock_new lid grp own rvn lut acq (opt_leaseDurationInMs opts)
                  (opt_additionalAttributes opts) (opt_prolongLeaseEnabled opts)
                  (opt_prolongEveryMs opts) (opt_maxRetryCount opts) (opt_trustLocalTime opts)
                  (opt_waitDurationInMs opts)))"
  by (cases "opt_prolongLeaseEnabled opts")
     (auto simp add: create_def validate_def Lock_new_def Let_def)

text \<open>
  C8, as amended. \<open>Lock.create\<close> fails exactly when the handle is not acquired,
  prolongation is not switched off and \<open>prolongEveryMs >= leaseDurationInMs / 2\<close>
  (defaults 5000 and 20000), and then with \<open>LockOptionsValidationError\<close>; in every
  other case it builds the handle from its arguments. It does not look at whether
  group, id or owner are empty, nor at the sign of any numeric option.
\<close>

theorem C8_create_fails_only_on_prolongation_period:
  "create grp lid own rvn lut acq opts =
     (if \<not> acq \<and> opt_prolongLeaseEnabled opts \<noteq> Some False \<and>
         rat_of_int (case opt_prolongEveryMs opts of None \<Rightarrow> 5000 | Some p \<Rightarrow> p)
           \<ge> rat_of_int (case opt_leaseDurationInMs opts of None \<Rightarrow> 20000 | Some d \<Rightarrow> d) / 2
      then Inl (LockOptionsValidationError
             (''prolongEveryMs('' @
              show_int (case opt_prolongEveryMs opts of None \<Rightarrow> 5000 | Some p \<Rightarrow> p) @
              '') can not be longer than leaseDurationInMs/2('' @
              show_int (case opt_leaseDurationInMs opts of None \<Rightarrow> 20000 | Some d \<Rightarrow> d) @
              '')''))
      else Inr (Lock_new lid grp own rvn lut acq (opt_leaseDurationInMs opts)
                  (opt_additionalAttributes opts) (opt_prolongLeaseEnabled opts)
                  (opt_prolongEveryMs opts) (opt_maxRetryCount opts) (opt_trustLocalTime opts)
                  (opt_waitDurationInMs opts)))"
  by (rule create_eq)

text \<open>Both branches at a lease of 10000 ms and a period of 5000 ms.\<close>

theorem C8_witness:
  "create ''group'' ''id'' ''owner'' None None False
     (no_options\<lparr>opt_leaseDurationInMs := Some 10000, opt_prolongEveryMs := Some 5000\<rparr>) =
   Inl (LockOptionsValidationError
          ''prolongEveryMs(5000) can not be longer than leaseDurationInMs/2(10000)'') \<and>
   create ''group'' ''id'' ''owner'' None None True
     (no_options\<lparr>opt_leaseDurationInMs := Some 10000, opt_prolongEveryMs := Some 5000\<rparr>) =
   Inr (Lock_new ''id'' ''group'' ''owner'' None None True (Some 10000) None None (Some 5000)
          None None None)"
  using C8_create_fails_only_on_prolongation_period
          [of "''group''" "''id''" "''owner''" None None False
              "no_options\<lparr>opt_leaseDurationInMs := Some 10000, opt_prolongEveryMs := Some 5000\<rparr>"]
        C8_create_fails_only_on_prolongation_period
          [of "''group''" "''id''" "''owner''" None None True
              "no_options\<lparr>opt_leaseDurationInMs := Some 10000, opt_prolongEveryMs := Some 5000\<rparr>"]
  by (simp add: no_options_def show_int_def show_nat.simps)

text \<open>
  Against C8 as stated: a handle is built from an empty group, id and owner with a
  negative \<open>prolongEveryMs\<close>, \<open>waitDurationInMs\<close> and \<open>maxRetryCount\<close>, and from a
  lease of 0 ms once prolongation is switched off.
\<close>

theorem C8_counterexample:
  "create [] [] [] None None False
     (no_options\<lparr>opt_prolongEveryMs := Some (- 1), opt_waitDurationInMs := Some (- 5),
                  opt_maxRetryCount := Some (- 1)\<rparr>) =
   Inr (Lock_new [] [] [] None None False None None None (Some (- 1)) (Some (- 1)) None
          (Some (- 5))) \<and>
   create [] [] [] None None False
     (no_options\<lparr>opt_leaseDurationInMs := Some 0, opt_prolongLeaseEnabled := Some False\<rparr>) =
   Inr (Lock_new [] [] [] None None False (Some 0) None (Some False) None None None None)"
  by (simp add: create_def validate_def Lock_new_def no_options_def)

text \<open>
  C7 at \<open>lastUpdatedTimeInMs = 0\<close>. The record was last written at time 0 with a lease
  of 1000 ms and the clock reads 5000, so \<open>now > lastUpdatedTimeInMs + leaseDurationInMs\<close>;
  the function answers false, because its guard \<open>!this.lastUpdatedTimeInMs\<close> takes 0
  for unset. One millisecond later in \<open>lastUpdatedTimeInMs\<close> it answers true.
\<close>

theorem C7_zero_counts_as_unset:
  "\<not> leaseExpirationTimePassed 5000
       (Lock_new ''id'' ''group'' ''owner'' (Some ''v1'') (Some 0) True (Some 1000) None None None
          None None None) \<and>
   (5000 :: int) > 0 + 1000 \<and>
   leaseExpirationTimePassed 5000
       (Lock_new ''id'' ''group'' ''owner'' (Some ''v1'') (Some 1) True (Some 1000) None None None
          None None None)"
  by (simp add: leaseExpirationTimePassed_def Lock_new_def)


section \<open>Validation in \<open>lock\<close>\<close>

lemma lock_rejected:
  assumes "create grp lid (clientOwnerName s) None None False opts = Inl e"
  shows "lock grp lid opts s = finish (nextTask s) (Threw e) (s\<lparr>nextTask := Suc (nextTask s)\<rparr>)"
  using assms by (simp add: lock_def Let_def)

lemma lock_accepted:
  assumes "create grp lid (clientOwnerName s) None None False opts = Inr l"
      and "outcomes s (nextTask s) = None"
  shows "\<not> rejected_validation (outcomes (lock grp lid opts s) (nextTask s))"
proof
  assume "rejected_validation (outcomes (lock grp lid opts s) (nextTask s))"
  then have "rejected_validation (outcomes s (nextTask s))"
    using assms(1) by (auto simp add: lock_def Let_def dest: acquireLock_own(2))
  then show False using assms(2) by simp
qed

text \<open>
  C5. A call of \<open>lock\<close> whose options do not switch prolongation off (the handle it
  builds is not acquired) is rejected with \<open>LockOptionsValidationError\<close> exactly when
  \<open>prolongEveryMs >= leaseDurationInMs / 2\<close>, the options' defaults being 5000 and
  20000: whatever happens afterwards, the call's outcome is that error if and only if
  the inequality holds. When it is rejected it is so at once, in the call's first
  part: nothing was added to the trace of adapter operations and the call is not
  suspended. The call is a new task: no outcome is recorded under its number yet.
\<close>

theorem C5_lock_rejects_long_prolongation_period:
  assumes "opt_prolongLeaseEnabled opts \<noteq> Some False"
      and "outcomes s (nextTask s) = None"
  shows "rejected_validation (outcomes (steps evs (lock grp lid opts s)) (nextTask s)) =
           (rat_of_int (case opt_prolongEveryMs opts of None \<Rightarrow> 5000 | Some p \<Rightarrow> p)
              \<ge> rat_of_int (case opt_leaseDurationInMs opts of None \<Rightarrow> 20000 | Some d \<Rightarrow> d) / 2) \<and>
         (if rat_of_int (case opt_prolongEveryMs opts of None \<Rightarrow> 5000 | Some p \<Rightarrow> p)
              \<ge> rat_of_int (case opt_leaseDurationInMs opts of None \<Rightarrow> 20000 | Some d \<Rightarrow> d) / 2
          then rejected_validation (outcomes (lock grp lid opts s) (nextTask s)) \<and>
               tasks (lock grp lid opts s) (nextTask s) = None \<and>
               trace (lock grp lid opts s) = trace s
          else \<not> rejected_validation (outcomes (lock grp lid opts s) (nextTask s)))"
proof (cases "rat_of_int (case opt_prolongEveryMs opts of None \<Rightarrow> 5000 | Some p \<Rightarrow> p)
              \<ge> rat_of_int (case opt_leaseDurationInMs opts of None \<Rightarrow> 20000 | Some d \<Rightarrow> d) / 2")
  case True
  let ?s' = "lock grp lid opts s"
  obtain msg where "create grp lid (clientOwnerName s) None None False opts =
      Inl (LockOptionsValidationError msg)"
    using True assms(1) by (simp add: create_eq)
  then have eq: "?s' = finish (nextTask s) (Threw (LockOptionsValidationError msg))
      (s\<lparr>nextTask := Suc (nextTask s)\<rparr>)"
    by (rule lock_rejected)
  have now: "rejected_validation (outcomes ?s' (nextTask s))" "tasks ?s' (nextTask s) = None"
    "trace ?s' = trace s"
    by (simp_all add: eq)
  have "nextTask s < nextTask ?s'" by simp
  then have "outcomes (steps evs ?s') (nextTask s) = outcomes ?s' (nextTask s)"
    using steps_finished [of "nextTask s" ?s' evs] now(2) by simp
  then show ?thesis using True now by simp
next
  case False
  let ?s' = "lock grp lid opts s"
  obtain l where "create grp lid (clientOwnerName s) None None False opts = Inr l"
    using False by (simp add: create_eq)
  then have now: "\<not> rejected_validation (outcomes ?s' (nextTask s))"
    using assms(2) by (rule lock_accepted)
  have "nextTask s < nextTask ?s'" by simp
  then have "\<not> rejected_validation (outcomes (steps evs ?s') (nextTask s))"
    using steps_validation [of "nextTask s" ?s' evs] now by blast
  then show ?thesis using False now by simp
qed

text \<open>
  The boundary: with a lease of 10000 ms a period of 5000 ms is rejected and one of
  4999 ms is accepted, here with a backend that then reports no record and accepts
  the put.
\<close>

theorem C5_witness:
  "rejected_validation
     (outcomes (steps [Replied 0 (Resolve None), Replied 0 (Resolve None)]
                  (lock ''group'' ''id''
                     (no_options\<lparr>opt_leaseDurationInMs := Some 10000,
                                  opt_prolongEveryMs := Some 5000\<rparr>) example_client)) 0) \<and>
   trace (lock ''group'' ''id''
            (no_options\<lparr>opt_leaseDurationInMs := Some 10000, opt_prolongEveryMs := Some 5000\<rparr>)
            example_client) = [] \<and>
   \<not> rejected_validation
     (outcomes (steps [Replied 0 (Resolve None), Replied 0 (Resolve None)]
                  (lock ''group'' ''id''
                     (no_options\<lparr>opt_leaseDurationInMs := Some 10000,
                                  opt_prolongEveryMs := Some 4999\<rparr>) example_client)) 0)"
proof -
  have fresh: "outcomes example_client (nextTask example_client) = None"
    by (simp add: example_client_def LockClient_new_def)
  have t: "nextTask example_client = 0" "trace example_client = []"
    by (simp_all add: example_client_def LockClient_new_def)
  have e1: "opt_prolongLeaseEnabled
     (no_options\<lparr>opt_leaseDurationInMs := Some 10000, opt_prolongEveryMs := Some 5000\<rparr>) \<noteq> Some False"
    by (simp add: no_options_def)
  have e2: "opt_prolongLeaseEnabled
     (no_options\<lparr>opt_leaseDurationInMs := Some 10000, opt_prolongEveryMs := Some 4999\<rparr>) \<noteq> Some False"
    by (simp add: no_options_def)
  show ?thesis
    using C5_lock_rejects_long_prolongation_period [OF e1 fresh,
            of "[Replied 0 (Resolve None), Replied 0 (Resolve None)]" "''group''" "''id''"]
          C5_lock_rejects_long_prolongation_period [OF e2 fresh,
            of "[Replied 0 (Resolve None), Replied 0 (Resolve None)]" "''group''" "''id''"]
    by (simp add: t)
qed

section \<open>A \<open>lock\<close> call running to its end\<close>





section \<open>No renewal after release\<close>

text \<open>
  Resuming a call issues no renewal write: the only place that issues one is the
  timer callback, right after it found the handle acquired.
\<close>

lemma resume_renewals [simp]:
  "filter (is_renewal_of x) (trace (resume t rep s)) = filter (is_renewal_of x) (trace s)"
  by (simp add: resume_def split: option.splits pending.splits)

lemma wake_renewals [simp]:
  "filter (is_renewal_of x) (trace (wake t s)) = filter (is_renewal_of x) (trace s)"
  by (simp add: wake_def split: option.splits pending.splits)

lemma wake_isAcquired [simp]:
  "isAcquired (heap (wake t s) x) = isAcquired (heap s x)"
  by (simp add: wake_def split: option.splits pending.splits)

lemma resume_isAcquired:
  assumes "\<not> acquiring s x"
  shows "isAcquired (heap (resume t rep s) x) = isAcquired (heap s x)"
proof (cases "tasks s t")
  case None
  then show ?thesis by simp
next
  case (Some k)
  then have "acquires k \<noteq> Some x"
    using assms by (auto simp add: acquiring_def)
  then show ?thesis
    using Some by (cases k) (simp_all add: resume_def)
qed

lemma not_acquiring_step:
  assumes "\<not> acquiring s x"
      and "\<And>t'. t' \<noteq> t \<Longrightarrow> tasks s' t' = tasks s t'"
      and "tasks s' t = tasks s t \<or> tasks s' t = None \<or>
           (\<exists>k. tasks s' t = Some k \<and> acquires k \<noteq> Some x)"
  shows "\<not> acquiring s' x"
proof
  assume "acquiring s' x"
  then obtain t' k where k: "tasks s' t' = Some k" "acquires k = Some x"
    by (auto simp add: acquiring_def)
  show False
  proof (cases "t' = t")
    case True
    then show ?thesis
      using k assms(1,3) by (auto simp add: acquiring_def)
  next
    case False
    then show ?thesis
      using k assms(1,2) by (auto simp add: acquiring_def)
  qed
qed

lemma acquiring_or_done_other:
  "acquiring_or_done r ko \<Longrightarrow> r \<noteq> x \<Longrightarrow>
   ko = None \<or> (\<exists>k. ko = Some k \<and> acquires k \<noteq> Some x)"
  by (cases ko) (simp_all add: acquiring_or_done_def)

lemma acquireNewLock_written_shape:
  "acquiring_or_done r (tasks (acquireNewLock_written t r rc rep s) t)"
  by simp

lemma stealExistingLock_written_shape:
  "acquiring_or_done r (tasks (stealExistingLock_written t r rc rep s) t)"
  by simp

lemma lock_shape:
  "acquiring_or_done (nextRef s) (tasks (lock grp lid opts s) (nextTask s))"
  by simp

lemma lock_nextRef: "nextRef s \<le> nextRef (lock grp lid opts s)"
  by simp

lemma resume_own_shape:
  assumes "\<not> acquiring s x"
  shows "tasks (resume t rep s) t = tasks s t \<or> tasks (resume t rep s) t = None \<or>
         (\<exists>k. tasks (resume t rep s) t = Some k \<and> acquires k \<noteq> Some x)"
proof (cases "tasks s t")
  case None
  then show ?thesis by simp
next
  case (Some k)
  then have ne: "acquires k \<noteq> Some x"
    using assms by (auto simp add: acquiring_def)
  show ?thesis
  proof (cases k)
    case (AwaitGet r rc)
    then show ?thesis
      using Some ne acquiring_or_done_other [OF acquireLock_read_own(1) [of r t rc rep s], of x]
      by (simp add: resume_def)
  next
    case (AwaitCreate r rc)
    then show ?thesis
      using Some ne acquiring_or_done_other [OF acquireNewLock_written_shape [of r t rc rep s], of x]
      by (simp add: resume_def)
  next
    case (AwaitSteal r rc)
    then show ?thesis
      using Some ne acquiring_or_done_other [OF stealExistingLock_written_shape [of r t rc rep s], of x]
      by (simp add: resume_def)
  qed (use Some in \<open>simp_all add: resume_def\<close>)
qed

lemma wake_own_shape:
  assumes "\<not> acquiring s x"
  shows "tasks (wake t s) t = tasks s t \<or> tasks (wake t s) t = None \<or>
         (\<exists>k. tasks (wake t s) t = Some k \<and> acquires k \<noteq> Some x)"
proof (cases "tasks s t")
  case None
  then show ?thesis by simp
next
  case (Some k)
  then have ne: "acquires k \<noteq> Some x"
    using assms by (auto simp add: acquiring_def)
  show ?thesis
  proof (cases k)
    case (AwaitWaitThenRetry r wd rc)
    then show ?thesis
      using Some ne
        acquiring_or_done_other [OF tryStealingExistingLock_retry_own(1) [of r t wd rc s], of x]
      by (simp add: wake_def)
  next
    case (AwaitWaitThenSteal r ex rc)
    then show ?thesis
      using Some ne
        acquiring_or_done_other [OF tryStealingExistingLock_steal_own(1) [of r t ex rc s], of x]
      by (simp add: wake_def)
  qed (use Some in \<open>simp_all add: wake_def\<close>)
qed

lemma timeoutFired_own_shape:
  "tasks (timeoutFired th s) (nextTask s) = tasks s (nextTask s) \<or>
   tasks (timeoutFired th s) (nextTask s) = None \<or>
   (\<exists>k. tasks (timeoutFired th s) (nextTask s) = Some k \<and> acquires k \<noteq> Some x)"
  by (auto simp add: timeoutFired_def prolongLease_def Let_def split_def split: option.splits)

text \<open>
  The invariant of a released handle \<open>x\<close>: it exists, it is not acquired, and no
  \<open>lock\<close> call is working on it. Every event keeps it, and adds no renewal write
  for \<open>x\<close> to the trace.
\<close>

lemma step_released:
  assumes "x < nextRef s" and "\<not> isAcquired (heap s x)" and "\<not> acquiring s x"
  shows "x < nextRef (step e s) \<and> \<not> isAcquired (heap (step e s) x) \<and>
         \<not> acquiring (step e s) x \<and> renewals x (step e s) = renewals x s"
proof (cases e)
  case (CallLock grp lid opts)
  have ne: "nextRef s \<noteq> x" using assms(1) by simp
  have shape: "tasks (lock grp lid opts s) (nextTask s) = None \<or>
      (\<exists>k. tasks (lock grp lid opts s) (nextTask s) = Some k \<and> acquires k \<noteq> Some x)"
    using acquiring_or_done_other [OF lock_shape ne] .
  have "\<not> acquiring (lock grp lid opts s) x"
    by (rule not_acquiring_step [OF assms(3), of "nextTask s"]) (use shape in auto)
  moreover have "x < nextRef (lock grp lid opts s)"
    by (rule less_le_trans [OF assms(1) lock_nextRef])
  ultimately show ?thesis
    using CallLock assms(2) ne by (simp add: renewals_def)
next
  case (CallReleaseLock r)
  have "\<not> acquiring (releaseLock r s) x"
    by (rule not_acquiring_step [OF assms(3), of "nextTask s"]) auto
  then show ?thesis
    using CallReleaseLock assms(1,2) by (simp add: renewals_def)
next
  case CallReleaseAllLocks
  have "\<not> acquiring (releaseAllLocks s) x"
    by (rule not_acquiring_step [OF assms(3), of "nextTask s"]) auto
  then show ?thesis
    using CallReleaseAllLocks assms(1,2) by (simp add: renewals_def)
next
  case (Replied t rep)
  have "\<not> acquiring (resume t rep s) x"
    by (rule not_acquiring_step [OF assms(3), of t])
       (simp_all add: resume_own_shape [OF assms(3)])
  then show ?thesis
    using Replied assms(1,2) resume_isAcquired [OF assms(3)] by (simp add: renewals_def)
next
  case (Elapsed t)
  have "\<not> acquiring (wake t s) x"
    by (rule not_acquiring_step [OF assms(3), of t])
       (simp_all add: wake_own_shape [OF assms(3)])
  then show ?thesis
    using Elapsed assms(1,2) by (simp add: renewals_def)
next
  case (Fired th)
  have "\<not> acquiring (timeoutFired th s) x"
    by (rule not_acquiring_step [OF assms(3), of "nextTask s"])
       (simp_all add: timeoutFired_own_shape)
  then show ?thesis
    using Fired assms(1,2) timeoutFired_renewals [OF assms(2)] by (simp add: renewals_def)
next
  case (Tick d)
  have "\<not> acquiring (s\<lparr>clock := clock s + d\<rparr>) x"
    using assms(3) by (simp add: acquiring_def)
  then show ?thesis
    using Tick assms(1,2) by (simp add: renewals_def)
qed

lemma steps_released:
  assumes "x < nextRef s" and "\<not> isAcquired (heap s x)" and "\<not> acquiring s x"
  shows "renewals x (steps evs s) = renewals x s \<and> \<not> isAcquired (heap (steps evs s) x)"
  using assms
proof (induction evs arbitrary: s)
  case Nil
  then show ?case by simp
next
  case (Cons e evs)
  show ?case
    using step_released [OF Cons.prems, of e] Cons.IH [of "step e s"] by simp
qed

lemma releaseLock_released:
  assumes "r < nextRef s" and "\<not> acquiring s r"
  shows "r < nextRef (releaseLock r s)" "\<not> isAcquired (heap (releaseLock r s) r)"
    "\<not> acquiring (releaseLock r s) r"
proof -
  show "r < nextRef (releaseLock r s)" using assms(1) by simp
  show "\<not> isAcquired (heap (releaseLock r s) r)" by simp
  show "\<not> acquiring (releaseLock r s) r"
    by (rule not_acquiring_step [OF assms(2), of "nextTask s"]) auto
qed

text \<open>
  Which handle a call returns: only the part after a successful write ends a call
  with a handle, and the handle is the one the call was acquiring.
\<close>

lemma acquire_handle:
  "handle_of (outcomes (acquireLock t r rc s) t) = Some x \<Longrightarrow> handle_of (outcomes s t) = Some x"
  "handle_of (outcomes (acquireLock_read t r rc rep s) t) = Some x \<Longrightarrow>
     handle_of (outcomes s t) = Some x"
  "handle_of (outcomes (tryStealingExistingLock_retry t r wd rc s) t) = Some x \<Longrightarrow>
     handle_of (outcomes s t) = Some x"
  "handle_of (outcomes (tryStealingExistingLock_steal t r ex rc s) t) = Some x \<Longrightarrow>
     handle_of (outcomes s t) = Some x"
  by (simp_all add: acquire_defs create_acquired Let_def split_def
      split: reply.splits option.splits if_splits)

lemma written_handle:
  "handle_of (outcomes (acquireNewLock_written t r rc rep s) t) = Some x \<Longrightarrow>
     handle_of (outcomes s t) = Some x \<or>
     (x = r \<and> tasks (acquireNewLock_written t r rc rep s) t = None)"
  "handle_of (outcomes (stealExistingLock_written t r rc rep s) t) = Some x \<Longrightarrow>
     handle_of (outcomes s t) = Some x \<or>
     (x = r \<and> tasks (stealExistingLock_written t r rc rep s) t = None)"
  by (cases rep; auto simp add: acquireNewLock_written_def stealExistingLock_written_def Let_def
        dest: acquire_handle(1) split: if_splits)+

lemma other_handle [simp]:
  "handle_of (outcomes (releaseLock_deleted t r rep s) t) = None"
  "handle_of (outcomes (prolongLease_written t r u now uid every rep s) t) = None"
  "handle_of (outcomes (releaseAllLocks s) (nextTask s)) = None"
  by (simp_all add: releaseLock_deleted_def prolongLease_written_def Let_def
      split: reply.splits)

lemma lock_handle:
  "handle_of (outcomes (lock grp lid opts s) (nextTask s)) = Some x \<Longrightarrow>
     handle_of (outcomes s (nextTask s)) = Some x"
  by (auto simp add: lock_def Let_def dest: acquire_handle(1) split: sum.splits)

lemma timeoutFired_handle:
  "handle_of (outcomes (timeoutFired th s) (nextTask s)) = Some x \<Longrightarrow>
     handle_of (outcomes s (nextTask s)) = Some x"
  by (auto simp add: timeoutFired_def Let_def split: option.splits if_splits)

lemma resume_handle:
  assumes "handle_of (outcomes (resume t rep s) t) = Some x"
  shows "handle_of (outcomes s t) = Some x \<or>
         (tasks (resume t rep s) t = None \<and> (\<exists>k0. tasks s t = Some k0 \<and> acquires k0 = Some x))"
proof (cases "tasks s t")
  case None
  then show ?thesis using assms by simp
next
  case (Some k)
  show ?thesis
  proof (cases k)
    case (AwaitGet r rc)
    then show ?thesis using Some assms by (auto simp add: resume_def dest: acquire_handle(2))
  next
    case (AwaitCreate r rc)
    then show ?thesis using Some assms by (auto simp add: resume_def dest: written_handle(1))
  next
    case (AwaitSteal r rc)
    then show ?thesis using Some assms by (auto simp add: resume_def dest: written_handle(2))
  qed (use Some assms in \<open>simp_all add: resume_def\<close>)
qed

lemma wake_handle:
  assumes "handle_of (outcomes (wake t s) t) = Some x"
  shows "handle_of (outcomes s t) = Some x"
proof (cases "tasks s t")
  case None
  then show ?thesis using assms by simp
next
  case (Some k)
  then show ?thesis
    using assms by (cases k) (auto simp add: wake_def dest: acquire_handle(3,4))
qed

lemma acquiring_or_done_same:
  "acquiring_or_done r ko \<Longrightarrow> acquires k0 = Some r \<Longrightarrow>
   ko = None \<or> (\<exists>k. ko = Some k \<and> acquires k = acquires k0)"
  by (cases ko) (simp_all add: acquiring_or_done_def)

lemma resume_shape:
  "tasks (resume t rep s) t = tasks s t \<or> tasks (resume t rep s) t = None \<or>
   (\<exists>k k0. tasks (resume t rep s) t = Some k \<and> tasks s t = Some k0 \<and> acquires k = acquires k0)"
proof (cases "tasks s t")
  case None
  then show ?thesis by simp
next
  case (Some k)
  show ?thesis
  proof (cases k)
    case (AwaitGet r rc)
    then show ?thesis
      using Some acquiring_or_done_same [OF acquireLock_read_own(1) [of r t rc rep s], of k]
      by (auto simp add: resume_def)
  next
    case (AwaitCreate r rc)
    then show ?thesis
      using Some acquiring_or_done_same [OF acquireNewLock_written_shape [of r t rc rep s], of k]
      by (auto simp add: resume_def)
  next
    case (AwaitSteal r rc)
    then show ?thesis
      using Some acquiring_or_done_same [OF stealExistingLock_written_shape [of r t rc rep s], of k]
      by (auto simp add: resume_def)
  qed (use Some in \<open>simp_all add: resume_def\<close>)
qed

lemma wake_shape:
  "tasks (wake t s) t = tasks s t \<or> tasks (wake t s) t = None \<or>
   (\<exists>k k0. tasks (wake t s) t = Some k \<and> tasks s t = Some k0 \<and> acquires k = acquires k0)"
proof (cases "tasks s t")
  case None
  then show ?thesis by simp
next
  case (Some k)
  show ?thesis
  proof (cases k)
    case (AwaitWaitThenRetry r wd rc)
    then show ?thesis
      using Some
        acquiring_or_done_same [OF tryStealingExistingLock_retry_own(1) [of r t wd rc s], of k]
      by (auto simp add: wake_def)
  next
    case (AwaitWaitThenSteal r ex rc)
    then show ?thesis
      using Some
        acquiring_or_done_same [OF tryStealingExistingLock_steal_own(1) [of r t ex rc s], of k]
      by (auto simp add: wake_def)
  qed (use Some in \<open>simp_all add: wake_def\<close>)
qed

lemma lock_new_shape:
  "tasks (lock grp lid opts s) (nextTask s) = None \<or>
   (\<exists>k. tasks (lock grp lid opts s) (nextTask s) = Some k \<and> acquires k = Some (nextRef s) \<and>
        nextRef s < nextRef (lock grp lid opts s))"
  by (auto simp add: lock_def Let_def acquireLock_def split: sum.splits)

text \<open>
  One event seen from the tasks: it touches one task \<open>t\<close>. That task keeps the lock
  it is acquiring, or stops acquiring, or is a new \<open>lock\<close> call on a new handle;
  and it returns a handle only by ending a \<open>lock\<close> call on that handle.
\<close>

lemma step_summary:
  obtains t where
    "\<And>t'. t' \<noteq> t \<Longrightarrow> tasks (step e s) t' = tasks s t' \<and> outcomes (step e s) t' = outcomes s t'"
    "tasks (step e s) t = tasks s t \<or> tasks (step e s) t = None \<or>
     (\<exists>k. tasks (step e s) t = Some k \<and> acquires k = None) \<or>
     (\<exists>k k0. tasks (step e s) t = Some k \<and> tasks s t = Some k0 \<and> acquires k = acquires k0) \<or>
     (\<exists>k. tasks (step e s) t = Some k \<and> acquires k = Some (nextRef s) \<and>
          nextRef s < nextRef (step e s))"
    "\<And>x. handle_of (outcomes (step e s) t) = Some x \<Longrightarrow>
       handle_of (outcomes s t) = Some x \<or>
       (tasks (step e s) t = None \<and> (\<exists>k0. tasks s t = Some k0 \<and> acquires k0 = Some x))"
    "nextRef s \<le> nextRef (step e s)"
proof (cases e)
  case (CallLock grp lid opts)
  show ?thesis
  proof (rule that [of "nextTask s"])
    show "tasks (step e s) (nextTask s) = tasks s (nextTask s) \<or>
      tasks (step e s) (nextTask s) = None \<or>
      (\<exists>k. tasks (step e s) (nextTask s) = Some k \<and> acquires k = None) \<or>
      (\<exists>k k0. tasks (step e s) (nextTask s) = Some k \<and> tasks s (nextTask s) = Some k0 \<and>
         acquires k = acquires k0) \<or>
      (\<exists>k. tasks (step e s) (nextTask s) = Some k \<and> acquires k = Some (nextRef s) \<and>
          nextRef s < nextRef (step e s))"
      using lock_new_shape [of grp lid opts s] CallLock by auto
  qed (use CallLock in \<open>auto dest: lock_handle\<close>)
next
  case (CallReleaseLock r)
  show ?thesis
    by (rule that [of "nextTask s"]) (use CallReleaseLock in auto)
next
  case CallReleaseAllLocks
  show ?thesis
    by (rule that [of "nextTask s"]) (use CallReleaseAllLocks in auto)
next
  case (Replied t rep)
  show ?thesis
  proof (rule that [of t])
    show "tasks (step e s) t = tasks s t \<or> tasks (step e s) t = None \<or>
      (\<exists>k. tasks (step e s) t = Some k \<and> acquires k = None) \<or>
      (\<exists>k k0. tasks (step e s) t = Some k \<and> tasks s t = Some k0 \<and> acquires k = acquires k0) \<or>
      (\<exists>k. tasks (step e s) t = Some k \<and> acquires k = Some (nextRef s) \<and>
          nextRef s < nextRef (step e s))"
      using resume_shape [of t rep s] Replied by auto
  qed (use Replied in \<open>auto dest: resume_handle\<close>)
next
  case (Elapsed t)
  show ?thesis
  proof (rule that [of t])
    show "tasks (step e s) t = tasks s t \<or> tasks (step e s) t = None \<or>
      (\<exists>k. tasks (step e s) t = Some k \<and> acquires k = None) \<or>
      (\<exists>k k0. tasks (step e s) t = Some k \<and> tasks s t = Some k0 \<and> acquires k = acquires k0) \<or>
      (\<exists>k. tasks (step e s) t = Some k \<and> acquires k = Some (nextRef s) \<and>
          nextRef s < nextRef (step e s))"
      using wake_shape [of t s] Elapsed by auto
  qed (use Elapsed in \<open>auto dest: wake_handle\<close>)
next
  case (Fired th)
  show ?thesis
  proof (rule that [of "nextTask s"])
    show "tasks (step e s) (nextTask s) = tasks s (nextTask s) \<or>
      tasks (step e s) (nextTask s) = None \<or>
      (\<exists>k. tasks (step e s) (nextTask s) = Some k \<and> acquires k = None) \<or>
      (\<exists>k k0. tasks (step e s) (nextTask s) = Some k \<and> tasks s (nextTask s) = Some k0 \<and>
         acquires k = acquires k0) \<or>
      (\<exists>k. tasks (step e s) (nextTask s) = Some k \<and> acquires k = Some (nextRef s) \<and>
          nextRef s < nextRef (step e s))"
      using Fired
      by (auto simp add: timeoutFired_def prolongLease_def Let_def split_def split: option.splits)
  qed (use Fired in \<open>auto dest: timeoutFired_handle\<close>)
next
  case (Tick d)
  show ?thesis
    by (rule that [of 0]) (use Tick in auto)
qed

lemma step_well_formed:
  assumes "well_formed s"
  shows "well_formed (step e s)"
proof (rule step_summary [of e s])
  fix t
  assume other: "\<And>t'. t' \<noteq> t \<Longrightarrow>
      tasks (step e s) t' = tasks s t' \<and> outcomes (step e s) t' = outcomes s t'"
    and shape: "tasks (step e s) t = tasks s t \<or> tasks (step e s) t = None \<or>
     (\<exists>k. tasks (step e s) t = Some k \<and> acquires k = None) \<or>
     (\<exists>k k0. tasks (step e s) t = Some k \<and> tasks s t = Some k0 \<and> acquires k = acquires k0) \<or>
     (\<exists>k. tasks (step e s) t = Some k \<and> acquires k = Some (nextRef s) \<and>
          nextRef s < nextRef (step e s))"
    and handle: "\<And>x. handle_of (outcomes (step e s) t) = Some x \<Longrightarrow>
       handle_of (outcomes s t) = Some x \<or>
       (tasks (step e s) t = None \<and> (\<exists>k0. tasks s t = Some k0 \<and> acquires k0 = Some x))"
    and mono: "nextRef s \<le> nextRef (step e s)"
  have w1: "\<And>t k r. tasks s t = Some k \<Longrightarrow> acquires k = Some r \<Longrightarrow> r < nextRef s"
    and w2: "\<And>t r. handle_of (outcomes s t) = Some r \<Longrightarrow> r < nextRef s \<and> \<not> acquiring s r"
    and w3: "\<And>t t' k k' r. tasks s t = Some k \<Longrightarrow> tasks s t' = Some k' \<Longrightarrow>
          acquires k = Some r \<Longrightarrow> acquires k' = Some r \<Longrightarrow> t = t'"
    using assms unfolding well_formed_def by blast+
  text \<open>Whoever acquires \<open>r\<close> after the event did so before, or \<open>r\<close> is new.\<close>
  have before: "(\<exists>k'. tasks s t1 = Some k' \<and> acquires k' = Some r) \<or>
      (t1 = t \<and> r = nextRef s \<and> nextRef s < nextRef (step e s))"
    if "tasks (step e s) t1 = Some k" "acquires k = Some r" for t1 k r
  proof (cases "t1 = t")
    case True
    then show ?thesis using that shape by auto
  next
    case False
    then show ?thesis using that other by simp
  qed
  have n1: "r < nextRef (step e s)"
    if "tasks (step e s) t1 = Some k" "acquires k = Some r" for t1 k r
  proof -
    have "r < nextRef s \<or> nextRef s < nextRef (step e s) \<and> r = nextRef s"
      using before [OF that] w1 by blast
    then show ?thesis using mono by auto
  qed
  have n3: "t1 = t2"
    if a: "tasks (step e s) t1 = Some k1" "acquires k1 = Some r"
      and b: "tasks (step e s) t2 = Some k2" "acquires k2 = Some r" for t1 t2 k1 k2 r
  proof -
    consider (old) k1' k2' where "tasks s t1 = Some k1'" "acquires k1' = Some r"
        "tasks s t2 = Some k2'" "acquires k2' = Some r"
      | (mixed) k' t' where "tasks s t' = Some k'" "acquires k' = Some r" "r = nextRef s"
      | (new) "t1 = t" "t2 = t"
      using before [OF a] before [OF b] by blast
    then show ?thesis
    proof cases
      case old
      show ?thesis by (rule w3 [OF old(1) old(3) old(2) old(4)])
    next
      case mixed
      then have "r < nextRef s" using w1 by blast
      then show ?thesis using mixed(3) by simp
    next
      case new
      then show ?thesis by simp
    qed
  qed
  have gone: "\<not> acquiring (step e s) r" if "r < nextRef s" "\<not> acquiring s r" for r
  proof
    assume "acquiring (step e s) r"
    then obtain t2 k where k: "tasks (step e s) t2 = Some k" "acquires k = Some r"
      unfolding acquiring_def by blast
    have "(\<exists>k'. tasks s t2 = Some k' \<and> acquires k' = Some r) \<or> r = nextRef s"
      using before [OF k] by blast
    then show False using that unfolding acquiring_def by auto
  qed
  have n2: "r < nextRef (step e s) \<and> \<not> acquiring (step e s) r"
    if h: "handle_of (outcomes (step e s) t1) = Some r" for t1 r
  proof (cases "\<exists>t0. handle_of (outcomes s t0) = Some r")
    case True
    then obtain t0 where "handle_of (outcomes s t0) = Some r" ..
    then have old: "r < nextRef s" "\<not> acquiring s r" using w2 [of t0 r] by simp_all
    show ?thesis using gone [OF old] old(1) mono by simp
  next
    case False
    have t1: "t1 = t"
    proof (rule ccontr)
      assume "t1 \<noteq> t"
      then have "outcomes (step e s) t1 = outcomes s t1" using other by simp
      then show False using h False by auto
    qed
    have "handle_of (outcomes s t) \<noteq> Some r" using False by simp
    then obtain k0 where k0: "tasks (step e s) t = None" "tasks s t = Some k0" "acquires k0 = Some r"
      using handle [of r] h t1 by auto
    have "\<not> acquiring (step e s) r"
    proof
      assume "acquiring (step e s) r"
      then obtain t2 k where k: "tasks (step e s) t2 = Some k" "acquires k = Some r"
        unfolding acquiring_def by blast
      then have ne: "t2 \<noteq> t" using k0(1) by auto
      then have "tasks s t2 = Some k" using k(1) other by simp
      then have "t2 = t" by (rule w3 [OF _ k0(2) k(2) k0(3)])
      then show False using ne by simp
    qed
    moreover have "r < nextRef (step e s)"
      using w1 [OF k0(2,3)] mono by simp
    ultimately show ?thesis by simp
  qed
  show "well_formed (step e s)"
    unfolding well_formed_def
  proof (intro conjI allI impI)
    fix t1 k r
    assume "tasks (step e s) t1 = Some k" "acquires k = Some r"
    then show "r < nextRef (step e s)" by (rule n1)
  next
    fix t1 r
    assume "handle_of (outcomes (step e s) t1) = Some r"
    then show "r < nextRef (step e s)" using n2 by simp
  next
    fix t1 r
    assume "handle_of (outcomes (step e s) t1) = Some r"
    then show "\<not> acquiring (step e s) r" using n2 by simp
  next
    fix t1 t2 k1 k2 r
    assume "tasks (step e s) t1 = Some k1" "tasks (step e s) t2 = Some k2"
      "acquires k1 = Some r" "acquires k2 = Some r"
    then show "t1 = t2" using n3 by blast
  qed
qed

lemma steps_well_formed:
  "well_formed s \<Longrightarrow> well_formed (steps evs s)"
  by (induction evs arbitrary: s) (simp_all add: step_well_formed)

lemma LockClient_new_well_formed: "well_formed (LockClient_new cfg cb ids now)"
  by (simp add: well_formed_def LockClient_new_def)

text \<open>
  C9. Take any history of a coordinator since its construction after which some
  \<open>lock\<close> call has returned the handle \<open>r\<close>, and call \<open>releaseLock\<close> on \<open>r\<close>. Whatever
  happens from then on (timers firing, including timers armed for \<open>r\<close> earlier;
  replies arriving, including the reply to a renewal of \<open>r\<close> that was in flight;
  further calls), no renewal write for \<open>r\<close> is issued: the renewals of \<open>r\<close> in the
  trace stay those issued before the release, and \<open>r\<close> stays not acquired.
\<close>

theorem C9_no_renewal_after_release:
  assumes "handle_of (outcomes (steps history (LockClient_new cfg cb ids now)) t) = Some r"
  shows "renewals r (steps evs (releaseLock r (steps history (LockClient_new cfg cb ids now)))) =
           renewals r (steps history (LockClient_new cfg cb ids now)) \<and>
         \<not> isAcquired (heap (steps evs (releaseLock r (steps history (LockClient_new cfg cb ids now)))) r)"
proof -
  let ?s = "steps history (LockClient_new cfg cb ids now)"
  have "well_formed ?s"
    by (rule steps_well_formed [OF LockClient_new_well_formed])
  then have r: "r < nextRef ?s" "\<not> acquiring ?s r"
    using assms unfolding well_formed_def by blast+
  have "renewals r (steps evs (releaseLock r ?s)) = renewals r (releaseLock r ?s) \<and>
        \<not> isAcquired (heap (steps evs (releaseLock r ?s)) r)"
    by (rule steps_released [OF releaseLock_released [OF r]])
  then show ?thesis by (simp add: renewals_def)
qed

text \<open>
  A run of it. The history: \<open>lock(group, id)\<close> creates the record and returns handle
  0, and its timer fires, so that a renewal is in flight when \<open>releaseLock\<close> is
  called. Afterwards the renewal is answered (which arms a new timeout), the delete
  is answered, time passes and both timeouts are fired: the trace still holds the one
  renewal issued before the release. Without the release the same events issue a
  second renewal.
\<close>

theorem C9_witness:
  "handle_of (outcomes
     (steps [CallLock ''group'' ''id'' no_options, Replied 0 (Resolve None),
             Replied 0 (Resolve None), Fired 0] example_client) 0) = Some 0 \<and>
   renewals 0
     (steps [Replied 1 (Resolve None), Replied 2 (Resolve None), Tick 5000, Fired 1, Fired 0]
        (releaseLock 0
           (steps [CallLock ''group'' ''id'' no_options, Replied 0 (Resolve None),
                   Replied 0 (Resolve None), Fired 0] example_client))) =
   renewals 0
     (steps [CallLock ''group'' ''id'' no_options, Replied 0 (Resolve None),
             Replied 0 (Resolve None), Fired 0] example_client) \<and>
   length (renewals 0
     (steps [CallLock ''group'' ''id'' no_options, Replied 0 (Resolve None),
             Replied 0 (Resolve None), Fired 0] example_client)) = 1 \<and>
   length (renewals 0
     (steps [Replied 1 (Resolve None), Tick 5000, Fired 1]
        (steps [CallLock ''group'' ''id'' no_options, Replied 0 (Resolve None),
                Replied 0 (Resolve None), Fired 0] example_client))) = 2"
proof -
  have returned: "handle_of (outcomes
     (steps [CallLock ''group'' ''id'' no_options, Replied 0 (Resolve None),
             Replied 0 (Resolve None), Fired 0]
        (LockClient_new (LockTableConfig_new None None None None None) True example_uuids 1000))
     0) = Some 0"
    by code_simp
  have one: "length (renewals 0
     (steps [CallLock ''group'' ''id'' no_options, Replied 0 (Resolve None),
             Replied 0 (Resolve None), Fired 0] example_client)) = 1"
    by code_simp
  have two: "length (renewals 0
     (steps [Replied 1 (Resolve None), Tick 5000, Fired 1]
        (steps [CallLock ''group'' ''id'' no_options, Replied 0 (Resolve None),
                Replied 0 (Resolve None), Fired 0] example_client))) = 2"
    by code_simp
  show ?thesis
    using returned one two
      C9_no_renewal_after_release [OF returned,
        of "[Replied 1 (Resolve None), Replied 2 (Resolve None), Tick 5000, Fired 1, Fired 0]"]
    by (simp add: example_client_def)
qed

section \<open>A failed \<open>lock\<close> call commits nothing\<close>




lemma attempt_timeoutHandler [simp]:
  "timeoutHandler (attemptLocking u w l) = timeoutHandler l"
  "timeoutHandler (resetLockingAttempt l) = timeoutHandler l"
  "timeoutHandler (prolonged u w l) = timeoutHandler l"
  "timeoutHandler (acquired l) = timeoutHandler l"
  by (simp_all add: attemptLocking_def resetLockingAttempt_def prolonged_def acquired_def)

lemma acquire_timeoutHandler [simp]:
  "timeoutHandler (heap (acquireLock t r rc s) x) = timeoutHandler (heap s x)"
  "timeoutHandler (heap (acquireLock_read t r rc rep s) x) = timeoutHandler (heap s x)"
  "timeoutHandler (heap (tryStealingExistingLock_retry t r wd rc s) x) = timeoutHandler (heap s x)"
  "timeoutHandler (heap (tryStealingExistingLock_steal t r ex rc s) x) = timeoutHandler (heap s x)"
  by (simp_all add: acquire_defs create_acquired Let_def split_def
      split: reply.splits option.splits)


lemma acquire_untouched [simp]:
  "untouched (acquireLock t r rc s) x = untouched s x"
  "untouched (acquireLock_read t r rc rep s) x = untouched s x"
  "untouched (tryStealingExistingLock_retry t r wd rc s) x = untouched s x"
  "untouched (tryStealingExistingLock_steal t r ex rc s) x = untouched s x"
  by (simp_all add: untouched_def)

lemma primitive_untouched [simp]:
  "untouched (log sev msg s) x = untouched s x"
  "untouched (finish t res s) x = untouched s x"
  "untouched (suspend t req k s) x = untouched s x"
  "untouched (s\<lparr>nextTask := n\<rparr>) x = untouched s x"
  "untouched (s\<lparr>clock := c\<rparr>) x = untouched s x"
  by (simp_all add: untouched_def)













lemma releaseLock_deleted_untouched [simp]:
  "untouched (releaseLock_deleted t r rep s) x = untouched s x"
  by (simp add: untouched_def)

lemma wake_untouched [simp]: "untouched (wake t s) x = untouched s x"
  by (simp add: wake_def split: option.splits pending.splits)








lemma primitive_known [simp]:
  "known_handles (log sev msg s) = known_handles s"
  "known_handles (finish t res s) = known_handles s"
  "known_handles (suspend t req k s) = known_handles s"
  "known_handles (modify r f s) = known_handles s"
  "known_handles (s\<lparr>nextTask := n\<rparr>) = known_handles s"
  "known_handles (s\<lparr>clock := c\<rparr>) = known_handles s"
  "known_handles (acquireLock t r rc s) = known_handles s"
  "known_handles (acquireLock_read t r rc rep s) = known_handles s"
  "known_handles (tryStealingExistingLock_retry t r wd rc s) = known_handles s"
  "known_handles (tryStealingExistingLock_steal t r ex rc s) = known_handles s"
  "known_handles (releaseLock_deleted t r rep s) = known_handles s"
  by (simp_all add: known_handles_def)




lemma wake_known [simp]: "known_handles (wake t s) = known_handles s"
  by (simp add: wake_def split: option.splits pending.splits)




















section \<open>Release\<close>

lemma releaseLock_local:
  "\<not> isAcquired (heap (releaseLock r s) r)"
  "timeoutHandler (heap (releaseLock r s) r) = None"
  "case timeoutHandler (heap s r) of None \<Rightarrow> True | Some th \<Rightarrow> timers (releaseLock r s) th = None"
  "map_of (acquiredLocks (releaseLock r s)) (getUniqueLockIdentifier (heap s r)) = None"
  by (simp_all add: releaseLock_def Let_def released_timers delete_conv' split: option.splits)

lemma releaseLock_issues_delete:
  "trace (releaseLock r s) =
     trace s @ [(nextTask s, DeleteLock r (deleteLock_params (config s) (heap (releaseLock r s) r)))]"
  "tasks (releaseLock r s) (nextTask s) = Some (AwaitDelete r)"
  by (simp_all add: releaseLock_def Let_def)

lemma releaseLock_replied:
  assumes "tasks s t = Some (AwaitDelete r)"
  shows "outcomes (step (Replied t (Resolve x)) s) t = Some (Returned None)"
    "code e = CONDITIONAL_CHECK_FAILED \<Longrightarrow>
       outcomes (step (Replied t (Reject e)) s) t = Some (Returned None) \<and>
       logs (step (Replied t (Reject e)) s) =
         (if logCallback s
          then logs s @ [(Warn, ''Tried to remove the lock but it is already released: '' @
                                getUniqueLockIdentifier (heap s r))]
          else logs s)"
    "code e \<noteq> CONDITIONAL_CHECK_FAILED \<Longrightarrow>
       outcomes (step (Replied t (Reject e)) s) t = Some (Threw (Backend e))"
  using assms by (simp_all add: resume_def releaseLock_deleted_def)

lemma releaseLock_twice:
  assumes "case rep2 of Resolve _ \<Rightarrow> True | Reject e \<Rightarrow> code e = CONDITIONAL_CHECK_FAILED"
  shows "outcomes
           (steps [CallReleaseLock r, Replied (nextTask s) rep1,
                   CallReleaseLock r, Replied (Suc (nextTask s)) rep2] s)
           (Suc (nextTask s)) = Some (Returned None)"
proof -
  let ?s2 = "step (Replied (nextTask s) rep1) (step (CallReleaseLock r) s)"
  have n: "nextTask ?s2 = Suc (nextTask s)" by simp
  have "tasks (releaseLock r ?s2) (Suc (nextTask s)) = Some (AwaitDelete r)"
    using releaseLock_issues_delete(2) [of r ?s2] n by simp
  then have "outcomes (step (Replied (Suc (nextTask s)) rep2) (releaseLock r ?s2))
      (Suc (nextTask s)) = Some (Returned None)"
    using assms releaseLock_replied(1,2) [of "releaseLock r ?s2" "Suc (nextTask s)" r]
    by (cases rep2) simp_all
  then show ?thesis by simp
qed

text \<open>
  C4, as amended: the timeout that \<open>releaseLock\<close> cancels is the one recorded in the
  handle. For every state and handle: when \<open>releaseLock\<close> suspends on its delete,
  which is the one operation it adds to the trace and its last entry, the handle is
  not acquired, the timeout recorded in its \<open>timeoutHandler\<close> is cleared and no
  longer armed, and the registry has no entry under the handle's identifier; the
  call has not returned yet. When the delete is answered (in any later state in
  which the call still waits for it), a success returns, a
  \<open>ConditionalCheckFailedException\<close> returns as well after a warning went to the log
  callback (if one was supplied), and any other error is thrown to the caller as it
  is. Hence a second \<open>releaseLock\<close> on the same handle, whose delete succeeds or
  fails conditionally, returns, whatever the first one's delete was answered.
\<close>

theorem C4_release_is_local_first_and_swallows_conditional_failure:
  "\<not> isAcquired (heap (releaseLock r s) r) \<and>
   timeoutHandler (heap (releaseLock r s) r) = None \<and>
   (case timeoutHandler (heap s r) of
      None \<Rightarrow> True
    | Some th \<Rightarrow> timers (releaseLock r s) th = None) \<and>
   map_of (acquiredLocks (releaseLock r s)) (getUniqueLockIdentifier (heap s r)) = None \<and>
   trace (releaseLock r s) =
     trace s @ [(nextTask s, DeleteLock r (deleteLock_params (config s) (heap (releaseLock r s) r)))] \<and>
   tasks (releaseLock r s) (nextTask s) = Some (AwaitDelete r) \<and>
   outcomes (releaseLock r s) = outcomes s \<and>
   (tasks s' t = Some (AwaitDelete r) \<longrightarrow>
      outcomes (step (Replied t (Resolve x)) s') t = Some (Returned None) \<and>
      (if code e = CONDITIONAL_CHECK_FAILED
       then outcomes (step (Replied t (Reject e)) s') t = Some (Returned None) \<and>
            logs (step (Replied t (Reject e)) s') =
              (if logCallback s'
               then logs s' @ [(Warn, ''Tried to remove the lock but it is already released: '' @
                                      getUniqueLockIdentifier (heap s' r))]
               else logs s')
       else outcomes (step (Replied t (Reject e)) s') t = Some (Threw (Backend e)))) \<and>
   ((case repB of Resolve _ \<Rightarrow> True | Reject eB \<Rightarrow> code eB = CONDITIONAL_CHECK_FAILED) \<longrightarrow>
      outcomes
        (steps [CallReleaseLock r, Replied (nextTask s) repA,
                CallReleaseLock r, Replied (Suc (nextTask s)) repB] s)
        (Suc (nextTask s)) = Some (Returned None))"
proof -
  have reply: "tasks s' t = Some (AwaitDelete r) \<longrightarrow>
      outcomes (step (Replied t (Resolve x)) s') t = Some (Returned None) \<and>
      (if code e = CONDITIONAL_CHECK_FAILED
       then outcomes (step (Replied t (Reject e)) s') t = Some (Returned None) \<and>
            logs (step (Replied t (Reject e)) s') =
              (if logCallback s'
               then logs s' @ [(Warn, ''Tried to remove the lock but it is already released: '' @
                                      getUniqueLockIdentifier (heap s' r))]
               else logs s')
       else outcomes (step (Replied t (Reject e)) s') t = Some (Threw (Backend e)))"
  proof
    assume a: "tasks s' t = Some (AwaitDelete r)"
    show "outcomes (step (Replied t (Resolve x)) s') t = Some (Returned None) \<and>
      (if code e = CONDITIONAL_CHECK_FAILED
       then outcomes (step (Replied t (Reject e)) s') t = Some (Returned None) \<and>
            logs (step (Replied t (Reject e)) s') =
              (if logCallback s'
               then logs s' @ [(Warn, ''Tried to remove the lock but it is already released: '' @
                                      getUniqueLockIdentifier (heap s' r))]
               else logs s')
       else outcomes (step (Replied t (Reject e)) s') t = Some (Threw (Backend e)))"
      using releaseLock_replied(1) [OF a, of x] releaseLock_replied(2) [OF a, of e]
        releaseLock_replied(3) [OF a, of e]
      by (cases "code e = CONDITIONAL_CHECK_FAILED") simp_all
  qed
  have twice: "(case repB of Resolve _ \<Rightarrow> True | Reject eB \<Rightarrow> code eB = CONDITIONAL_CHECK_FAILED) \<longrightarrow>
      outcomes
        (steps [CallReleaseLock r, Replied (nextTask s) repA,
                CallReleaseLock r, Replied (Suc (nextTask s)) repB] s)
        (Suc (nextTask s)) = Some (Returned None)"
    using releaseLock_twice [of repB r s repA] by blast
  have same: "outcomes (releaseLock r s) = outcomes s" by simp
  show ?thesis
    using releaseLock_local [of r s] releaseLock_issues_delete [of r s] same reply twice
    by (intro conjI)
qed

text \<open>
  A run of it: the handle of \<open>example_held\<close> is released twice, and both deletes
  fail conditionally.
\<close>

theorem C4_witness:
  "\<not> isAcquired (heap (releaseLock 0 example_held) 0) \<and>
   timers (releaseLock 0 example_held) 0 = None \<and>
   map_of (acquiredLocks (releaseLock 0 example_held)) ''group|id'' = None \<and>
   tasks (releaseLock 0 example_held) 1 = Some (AwaitDelete 0) \<and>
   outcomes (step (Replied 1 conditionalCheckFailed) (releaseLock 0 example_held)) 1 =
     Some (Returned None) \<and>
   logs (step (Replied 1 conditionalCheckFailed) (releaseLock 0 example_held)) =
     logs (releaseLock 0 example_held) @
     [(Warn, ''Tried to remove the lock but it is already released: group|id'')] \<and>
   outcomes
     (steps [CallReleaseLock 0, Replied 1 conditionalCheckFailed,
             CallReleaseLock 0, Replied 2 conditionalCheckFailed] example_held) 2 =
     Some (Returned None)"
proof -
  have held: "timeoutHandler (heap example_held 0) = Some 0"
    "getUniqueLockIdentifier (heap example_held 0) = ''group|id''"
    "nextTask example_held = 1"
    "logCallback example_held"
    by code_simp+
  have released: "tasks (releaseLock 0 example_held) 1 = Some (AwaitDelete 0)"
    "logCallback (releaseLock 0 example_held)"
    "getUniqueLockIdentifier (heap (releaseLock 0 example_held) 0) = ''group|id''"
    by code_simp+
  show ?thesis
    using C4_release_is_local_first_and_swallows_conditional_failure
      [where r = 0 and s = example_held and s' = "releaseLock 0 example_held" and t = 1
         and e = "AWSError CONDITIONAL_CHECK_FAILED" and repA = conditionalCheckFailed
         and repB = conditionalCheckFailed and x = None]
    by (simp add: held released conditionalCheckFailed_def numeral_2_eq_2)
qed

text \<open>
  Against C4 as stated, in \<open>example_two_timers\<close>. There the second \<open>lock\<close>
  call has returned handle 1 and armed timeout 1 for it; the late reply to the
  renewal of handle 0 then made \<open>startProlongingLease\<close> look up \<open>group|id\<close> in the
  registry, find handle 1, arm timeout 2 for it and record timeout 2 in it. So two
  timeouts are armed for handle 1 and the handle records the second.
  \<open>releaseLock\<close> on handle 1 cancels timeout 2; timeout 1 is still armed for the
  handle when the delete is issued.
\<close>

theorem C4_counterexample:
  "handle_of (outcomes example_two_timers 2) = Some 1 \<and>
   isAcquired (heap example_two_timers 1) \<and>
   timers example_two_timers 1 = Some (''group|id'', Some 1, 5000) \<and>
   timers example_two_timers 2 = Some (''group|id'', Some 1, 5000) \<and>
   timeoutHandler (heap example_two_timers 1) = Some 2 \<and>
   tasks (releaseLock 1 example_two_timers) 3 = Some (AwaitDelete 1) \<and>
   timers (releaseLock 1 example_two_timers) 2 = None \<and>
   timers (releaseLock 1 example_two_timers) 1 = Some (''group|id'', Some 1, 5000)"
  by code_simp

section \<open>Where the coordinator departs from its specification\<close>

text \<open>
  C1 at a coordinator holding one lock. \<open>releaseAllLocks\<close> empties the registry,
  marks the handle released and disarms its timeout, and returns; the trace of adapter
  operations is what it was, in this state as in every state: no \<open>deleteLock\<close> is
  issued for the handle, and the record stays in the table. (\<open>releaseLock\<close> on the
  same state issues the delete.) The loop collects the locks, not promises of their
  release, in \<open>releaseLockPromises\<close>.
\<close>

theorem C1_releaseAllLocks_issues_no_delete:
  "trace (releaseAllLocks s) = trace s \<and>
   outcomes (releaseAllLocks s) (nextTask s) = Some (Returned None) \<and>
   map snd (acquiredLocks example_held) = [0] \<and>
   acquiredLocks (releaseAllLocks example_held) = [] \<and>
   \<not> isAcquired (heap (releaseAllLocks example_held) 0) \<and>
   timers (releaseAllLocks example_held) 0 = None \<and>
   filter is_delete (trace (releaseAllLocks example_held)) = [] \<and>
   outcomes (releaseAllLocks example_held) 1 = Some (Returned None) \<and>
   length (filter is_delete (trace (releaseLock 0 example_held))) = 1"
proof -
  have "map snd (acquiredLocks example_held) = [0]"
    "acquiredLocks (releaseAllLocks example_held) = []"
    "\<not> isAcquired (heap (releaseAllLocks example_held) 0)"
    "timers (releaseAllLocks example_held) 0 = None"
    "filter is_delete (trace (releaseAllLocks example_held)) = []"
    "outcomes (releaseAllLocks example_held) 1 = Some (Returned None)"
    "length (filter is_delete (trace (releaseLock 0 example_held))) = 1"
    by code_simp+
  then show ?thesis by simp
qed

text \<open>
  C3 at a coordinator holding one lock with prolongation, whose timer fires and
  whose renewal the backend answers with \<open>ConditionalCheckFailedException\<close>. The
  timer callback ends by throwing that error (a promise nobody awaits is rejected);
  the log callback received nothing, so no warning; no timeout is armed any more, so
  renewals have stopped; and the handle is still marked acquired and registered.
  \<open>prolongLease\<close> has no \<open>catch\<close>, where \<open>releaseLock\<close>, \<open>acquireNewLock\<close> and
  \<open>stealExistingLock\<close> each have one for this error.
\<close>

theorem C3_failed_renewal_throws_and_logs_nothing:
  "outcomes (steps [Fired 0, Replied 1 conditionalCheckFailed] example_held) 1 =
     Some (Threw (Backend (AWSError ''ConditionalCheckFailedException''))) \<and>
   logs (steps [Fired 0, Replied 1 conditionalCheckFailed] example_held) = logs example_held \<and>
   filter (\<lambda>entry. fst entry = Warn)
     (logs (steps [Fired 0, Replied 1 conditionalCheckFailed] example_held)) = [] \<and>
   logCallback example_held \<and>
   timers (steps [Fired 0, Replied 1 conditionalCheckFailed] example_held) 0 = None \<and>
   nextTimeout (steps [Fired 0, Replied 1 conditionalCheckFailed] example_held) = 1 \<and>
   isAcquired (heap (steps [Fired 0, Replied 1 conditionalCheckFailed] example_held) 0) \<and>
   acquiredLocks (steps [Fired 0, Replied 1 conditionalCheckFailed] example_held) =
     [(''group|id'', 0)]"
  by code_simp


text \<open>
  C6 at \<open>maxRetryCount = 1\<close>, where the claim gives two attempts. When the read
  finds no record and the put fails conditionally, the call is refused after that one
  read: \<open>acquireNewLock\<close> increments the retry count a second time in the round.
  When each read finds the other owner's record and each steal fails conditionally,
  the call is still trying after the first round and is refused after the second
  read, as is the call that trusts the local clock and only waits and reads again:
  \<open>stealExistingLock\<close> and \<open>tryStealingExistingLock\<close> do not increment.
\<close>

theorem C6_create_path_counts_twice:
  "outcomes
     (steps [CallLock ''group'' ''id'' (no_options\<lparr>opt_maxRetryCount := Some 1\<rparr>),
             Replied 0 (Resolve None), Replied 0 conditionalCheckFailed] example_client) 0 =
     Some (Threw (LockNotGrantedError
       ''group|id could not be acquired after retrying for 1 times.'')) \<and>
   length (filter is_read (trace
     (steps [CallLock ''group'' ''id'' (no_options\<lparr>opt_maxRetryCount := Some 1\<rparr>),
             Replied 0 (Resolve None), Replied 0 conditionalCheckFailed] example_client))) = 1 \<and>
   outcomes
     (steps [CallLock ''group'' ''id'' (no_options\<lparr>opt_maxRetryCount := Some 1\<rparr>),
             Replied 0 (Resolve (Some example_record)), Elapsed 0, Replied 0 conditionalCheckFailed]
        example_client) 0 = None \<and>
   outcomes
     (steps [CallLock ''group'' ''id'' (no_options\<lparr>opt_maxRetryCount := Some 1\<rparr>),
             Replied 0 (Resolve (Some example_record)), Elapsed 0, Replied 0 conditionalCheckFailed,
             Replied 0 (Resolve (Some example_record)), Elapsed 0, Replied 0 conditionalCheckFailed]
        example_client) 0 =
     Some (Threw (LockNotGrantedError
       ''group|id could not be acquired after retrying for 1 times.'')) \<and>
   length (filter is_read (trace
     (steps [CallLock ''group'' ''id'' (no_options\<lparr>opt_maxRetryCount := Some 1\<rparr>),
             Replied 0 (Resolve (Some example_record)), Elapsed 0, Replied 0 conditionalCheckFailed,
             Replied 0 (Resolve (Some example_record)), Elapsed 0, Replied 0 conditionalCheckFailed]
        example_client))) = 2"
  by code_simp

end
